theory Spec2Isabelle
  imports Main "HOL-Library.AList"
begin

section \<open>The credential cache of auth0-spa-js (src/cache.ts) and its token request (src/api.ts)\<close>

text \<open>
  A shallow embedding of \<^verbatim>\<open>src/src/cache.ts\<close> and \<^verbatim>\<open>src/src/api.ts\<close>.
  JavaScript strings are modelled as \<^typ>\<open>string\<close>; a value that may be
  \<^verbatim>\<open>undefined\<close> at run time is an \<^typ>\<open>'a option\<close> with \<^term>\<open>None\<close> for
  \<^verbatim>\<open>undefined\<close>; JavaScript numbers are the integers they hold here (seconds and
  milliseconds), so floating point is outside the model; a thrown exception (a rejected
  promise) is a value of the type \<open>error\<close>.
\<close>

subsection \<open>The string operations of the platform that the code calls\<close>

datatype error = TypeError | SyntaxError

text \<open>\<^verbatim>\<open>s.startsWith(p)\<close>.\<close>

definition startsWith :: "string \<Rightarrow> string \<Rightarrow> bool" where
  "startsWith s p = (take (length p) s = p)"

text \<open>
  \<^verbatim>\<open>s.split(sep)\<close> for a non-empty separator: the string is scanned from the left, each
  occurrence of the separator closes a part and the scan resumes after it. The empty
  string has the single part \<^verbatim>\<open>""\<close>.
\<close>

function splitOn :: "string \<Rightarrow> string \<Rightarrow> string list" where
  "splitOn sep [] = [[]]"
| "splitOn sep (c # cs) =
     (if sep \<noteq> [] \<and> startsWith (c # cs) sep
      then [] # splitOn sep (drop (length sep) (c # cs))
      else (case splitOn sep cs of [] \<Rightarrow> [[c]] | p # ps \<Rightarrow> (c # p) # ps))"
  by pat_completeness auto
termination
  by (relation "measure (\<lambda>(sep, s). length s)") auto

text \<open>\<^verbatim>\<open>s.split(sep)\<close>; with the empty separator the parts are the characters.\<close>

definition String_split :: "string \<Rightarrow> string \<Rightarrow> string list" where
  "String_split s sep = (if sep = [] then map (\<lambda>c. [c]) s else splitOn sep s)"

text \<open>
  Array destructuring \<^verbatim>\<open>const [a, b, c, d] = xs\<close> reads the positions that exist and
  gives \<^verbatim>\<open>undefined\<close> for the others.
\<close>

definition element :: "'a list \<Rightarrow> nat \<Rightarrow> 'a option" where
  "element xs i = (if i < length xs then Some (xs ! i) else None)"

text \<open>A value inside a template literal: \<^verbatim>\<open>undefined\<close> prints as the word.\<close>

definition interpolate :: "string option \<Rightarrow> string" where
  "interpolate v = (case v of None \<Rightarrow> ''undefined'' | Some s \<Rightarrow> s)"

text \<open>Truthiness of a string that may be undefined: defined and not empty.\<close>

definition truthy :: "string option \<Rightarrow> bool" where
  "truthy v = (case v of None \<Rightarrow> False | Some s \<Rightarrow> s \<noteq> [])"

subsection \<open>CacheKey\<close>

definition keyPrefix :: string where
  "keyPrefix = ''@@auth0spajs@@''"

definition DEFAULT_EXPIRY_ADJUSTMENT_SECONDS :: int where
  "DEFAULT_EXPIRY_ADJUSTMENT_SECONDS = 0"

text \<open>
  The fields are declared \<^verbatim>\<open>string\<close>, but \<^verbatim>\<open>fromKey\<close> leaves those beyond the last
  part of a short key \<^verbatim>\<open>undefined\<close>, and \<^verbatim>\<open>findExistingCacheKey\<close> guards against it.
\<close>

record CacheKey =
  prefix :: "string option"
  client_id :: "string option"
  audience :: "string option"
  scope :: "string option"

text \<open>
  \<^verbatim>\<open>new CacheKey({client_id, scope, audience}, prefix)\<close>: the arguments are the three
  fields of \<open>data\<close> and the prefix, which defaults to \<open>keyPrefix\<close> when it is undefined.
\<close>

definition new_CacheKey ::
  "string option \<Rightarrow> string option \<Rightarrow> string option \<Rightarrow> string option \<Rightarrow> CacheKey" where
  "new_CacheKey client scopes aud pre =
     \<lparr>prefix = (case pre of None \<Rightarrow> Some keyPrefix | Some p \<Rightarrow> Some p),
      CacheKey.client_id = client,
      CacheKey.audience = aud,
      CacheKey.scope = scopes\<rparr>"

definition toKey :: "CacheKey \<Rightarrow> string" where
  "toKey k =
     interpolate (prefix k) @ ''::'' @ interpolate (CacheKey.client_id k) @ ''::'' @
     interpolate (CacheKey.audience k) @ ''::'' @ interpolate (CacheKey.scope k)"

definition fromKey :: "string \<Rightarrow> CacheKey" where
  "fromKey key =
     (let parts = String_split key ''::'' in
      new_CacheKey (element parts 1) (element parts 3) (element parts 2) (element parts 0))"

subsection \<open>findExistingCacheKey\<close>

text \<open>
  The callback of the \<^verbatim>\<open>filter\<close>. \<^verbatim>\<open>hasAllScopes\<close> is computed before the
  comparison of the other fields, and its \<^verbatim>\<open>scope.split(' ')\<close> throws a TypeError
  when the requested scope is undefined; the guard \<^verbatim>\<open>currentScopes &&\<close> skips it for
  a stored key whose scope is undefined or empty.
\<close>

definition hasAllScopes :: "string option \<Rightarrow> string option \<Rightarrow> error + bool" where
  "hasAllScopes requested currentScopes =
     (case currentScopes of
        None \<Rightarrow> Inr False
      | Some cur \<Rightarrow>
          if cur = [] then Inr False
          else
            (let currentScopesArr = String_split cur '' '' in
             case requested of
               None \<Rightarrow> Inl TypeError
             | Some s \<Rightarrow>
                 Inr (foldl (\<lambda>acc current. acc \<and> current \<in> set currentScopesArr)
                        True (String_split s '' ''))))"

definition matchesCacheKey :: "CacheKey \<Rightarrow> string \<Rightarrow> error + bool" where
  "matchesCacheKey cacheKey key =
     (let current = fromKey key in
      case hasAllScopes (CacheKey.scope cacheKey) (CacheKey.scope current) of
        Inl e \<Rightarrow> Inl e
      | Inr has \<Rightarrow>
          Inr (prefix current = Some keyPrefix \<and>
               CacheKey.client_id current = CacheKey.client_id cacheKey \<and>
               CacheKey.audience current = CacheKey.audience cacheKey \<and> has))"

text \<open>\<^verbatim>\<open>xs.filter(f)\<close> for a callback that may throw: the first throw ends the call.\<close>

fun filterThrowing :: "('a \<Rightarrow> error + bool) \<Rightarrow> 'a list \<Rightarrow> error + 'a list" where
  "filterThrowing f [] = Inr []"
| "filterThrowing f (x # xs) =
     (case f x of
        Inl e \<Rightarrow> Inl e
      | Inr b \<Rightarrow>
          (case filterThrowing f xs of
             Inl e \<Rightarrow> Inl e
           | Inr ys \<Rightarrow> Inr (if b then x # ys else ys)))"

definition findExistingCacheKey :: "CacheKey \<Rightarrow> string list \<Rightarrow> error + string option" where
  "findExistingCacheKey cacheKey existingCacheKeys =
     (case filterThrowing (matchesCacheKey cacheKey) existingCacheKeys of
        Inl e \<Rightarrow> Inl e
      | Inr matching \<Rightarrow> Inr (element matching 0))"

subsection \<open>Cache entries\<close>

text \<open>
  \<^verbatim>\<open>IdToken\<close> and \<^verbatim>\<open>User\<close> are declared in \<^verbatim>\<open>./global\<close>, which is not among the
  sources. Of the claims of an ID token the cache reads \<^verbatim>\<open>exp\<close> only (epoch seconds);
  the user profile is opaque to it and is the type parameter \<open>'u\<close>.
\<close>

record IdToken =
  exp :: int

record 'u DecodedToken =
  claims :: IdToken
  user :: 'u

record 'u CacheEntry =
  id_token :: string
  access_token :: string
  expires_in :: int
  decodedToken :: "'u DecodedToken"
  audience :: string
  scope :: string
  client_id :: string
  refresh_token :: "string option"

text \<open>\<^verbatim>\<open>Partial<CacheEntry>\<close>: every field may be missing.\<close>

record 'u Partial_CacheEntry =
  id_token :: "string option"
  access_token :: "string option"
  expires_in :: "int option"
  decodedToken :: "'u DecodedToken option"
  audience :: "string option"
  scope :: "string option"
  client_id :: "string option"
  refresh_token :: "string option"

text \<open>A \<^verbatim>\<open>CacheEntry\<close> read at the type \<^verbatim>\<open>Partial<CacheEntry>\<close> (\<^verbatim>\<open>body: entry\<close>).\<close>

definition asPartial :: "'u CacheEntry \<Rightarrow> 'u Partial_CacheEntry" where
  "asPartial entry =
     \<lparr>Partial_CacheEntry.id_token = Some (CacheEntry.id_token entry),
      Partial_CacheEntry.access_token = Some (CacheEntry.access_token entry),
      Partial_CacheEntry.expires_in = Some (CacheEntry.expires_in entry),
      Partial_CacheEntry.decodedToken = Some (CacheEntry.decodedToken entry),
      Partial_CacheEntry.audience = Some (CacheEntry.audience entry),
      Partial_CacheEntry.scope = Some (CacheEntry.scope entry),
      Partial_CacheEntry.client_id = Some (CacheEntry.client_id entry),
      Partial_CacheEntry.refresh_token = CacheEntry.refresh_token entry\<rparr>"

text \<open>The object literal \<^verbatim>\<open>{ refresh_token: t }\<close>.\<close>

definition refreshTokenOnly :: "string option \<Rightarrow> 'u Partial_CacheEntry" where
  "refreshTokenOnly t =
     \<lparr>Partial_CacheEntry.id_token = None,
      Partial_CacheEntry.access_token = None,
      Partial_CacheEntry.expires_in = None,
      Partial_CacheEntry.decodedToken = None,
      Partial_CacheEntry.audience = None,
      Partial_CacheEntry.scope = None,
      Partial_CacheEntry.client_id = None,
      Partial_CacheEntry.refresh_token = t\<rparr>"

record 'u WrappedCacheEntry =
  body :: "'u Partial_CacheEntry"
  expiresAt :: int

subsection \<open>The state: objects, localStorage, and the map enclosed by InMemoryCache\<close>

text \<open>
  The value a backend hands to the cache manager is what the cast
  \<^verbatim>\<open>as WrappedCacheEntry\<close> takes it for: a wrapped entry, or a falsy value
  (\<^verbatim>\<open>null\<close>, \<^verbatim>\<open>false\<close>, \<^verbatim>\<open>0\<close>, \<^verbatim>\<open>""\<close>).
\<close>

datatype 'u payload = Falsy | Object "'u WrappedCacheEntry"

text \<open>
  A string held by localStorage is represented by what \<^verbatim>\<open>JSON.parse\<close> makes of it:
  \<open>Json v\<close> is a text that parses to \<open>v\<close>, \<open>Malformed s\<close> is the text \<open>s\<close> that
  \<^verbatim>\<open>JSON.parse\<close> rejects with a SyntaxError. The empty string is \<open>Malformed []\<close>
  (\<^verbatim>\<open>JSON.parse("")\<close> throws), and it is the only falsy string.
\<close>

datatype 'u storedText = Malformed string | Json "'u payload"

definition JSON_parse :: "'u storedText \<Rightarrow> error + 'u payload" where
  "JSON_parse t = (case t of Malformed s \<Rightarrow> Inl SyntaxError | Json v \<Rightarrow> Inr v)"

definition JSON_stringify :: "'u WrappedCacheEntry \<Rightarrow> 'u storedText" where
  "JSON_stringify entry = Json (Object entry)"

definition emptyString :: "'u storedText \<Rightarrow> bool" where
  "emptyString t = (t = Malformed [])"

text \<open>
  \<^verbatim>\<open>CacheManager.get\<close> assigns to a field of the object the backend returned, and
  \<^verbatim>\<open>InMemoryCache\<close> returns the very object it holds. Wrapped entries therefore live in
  a heap and are passed by reference (an index into \<open>heap\<close>); \<open>localStorage\<close> and the
  map \<open>cache\<close> are association lists in the order in which their keys are enumerated.
  A write to a key that is present keeps its place, and a new key is put last: this is the
  order of the properties of a JavaScript object whose names are no array indices (a name
  that is one never carries the prefix of the cache), and for localStorage, whose order
  is the browser's, it is one possible order. The keys of a store are distinct.
\<close>

record 'u world =
  heap :: "'u WrappedCacheEntry list"
  localStorage :: "(string \<times> 'u storedText) list"
  cache :: "(string \<times> nat) list"

text \<open>\<^verbatim>\<open>Object.keys(store)\<close>.\<close>

definition Object_keys :: "(string \<times> 'v) list \<Rightarrow> string list" where
  "Object_keys store = map fst store"

subsection \<open>LocalStorageCache\<close>

definition LocalStorageCache_set :: "string \<Rightarrow> nat \<Rightarrow> 'u world \<Rightarrow> 'u world" where
  "LocalStorageCache_set key entry w =
     w\<lparr>localStorage := AList.update key (JSON_stringify (heap w ! entry)) (localStorage w)\<rparr>"

text \<open>
  \<^verbatim>\<open>readJson\<close>. A parsed object is a new object of the heap; the result is its
  reference, \<open>None\<close> for \<^verbatim>\<open>undefined\<close>.
\<close>

definition LocalStorageCache_readJson ::
  "CacheKey \<Rightarrow> 'u world \<Rightarrow> (error + nat option) \<times> 'u world" where
  "LocalStorageCache_readJson cacheKey w =
     (case findExistingCacheKey cacheKey (Object_keys (localStorage w)) of
        Inl e \<Rightarrow> (Inl e, w)
      | Inr existingCacheKey \<Rightarrow>
          (case (case existingCacheKey of
                   None \<Rightarrow> None
                 | Some k \<Rightarrow> if k = [] then None else map_of (localStorage w) k) of
             None \<Rightarrow> (Inr None, w)
           | Some json \<Rightarrow>
               if emptyString json then (Inr None, w)
               else
                 (case JSON_parse json of
                    Inl e \<Rightarrow> (Inl e, w)
                  | Inr Falsy \<Rightarrow> (Inr None, w)
                  | Inr (Object obj) \<Rightarrow>
                      (Inr (Some (length (heap w))), w\<lparr>heap := heap w @ [obj]\<rparr>))))"

definition LocalStorageCache_get ::
  "string \<Rightarrow> 'u world \<Rightarrow> (error + nat option) \<times> 'u world" where
  "LocalStorageCache_get key w =
     (let cacheKey = fromKey key in
      case LocalStorageCache_readJson cacheKey w of
        (Inl e, w') \<Rightarrow> (Inl e, w')
      | (Inr None, w') \<Rightarrow> (Inr None, w')
      | (Inr (Some payload), w') \<Rightarrow> (Inr (Some payload), w'))"

definition LocalStorageCache_remove :: "string \<Rightarrow> 'u world \<Rightarrow> 'u world" where
  "LocalStorageCache_remove key w = w\<lparr>localStorage := AList.delete key (localStorage w)\<rparr>"

text \<open>
  The loop of \<^verbatim>\<open>clear\<close>, \<^verbatim>\<open>for (var i = length - 1; i >= 0; i--)\<close>: the first
  argument is \<open>i + 1\<close>. \<^verbatim>\<open>localStorage.key(i)\<close> is \<^verbatim>\<open>null\<close> out of range, and
  \<^verbatim>\<open>startsWith\<close> on it throws.
\<close>

primrec clearLoop ::
  "nat \<Rightarrow> (string \<times> 'v) list \<Rightarrow> (error + unit) \<times> (string \<times> 'v) list" where
  "clearLoop 0 store = (Inr (), store)"
| "clearLoop (Suc i) store =
     (case element (Object_keys store) i of
        None \<Rightarrow> (Inl TypeError, store)
      | Some k \<Rightarrow>
          clearLoop i (if startsWith k keyPrefix then AList.delete k store else store))"

definition LocalStorageCache_clear :: "'u world \<Rightarrow> (error + unit) \<times> 'u world" where
  "LocalStorageCache_clear w =
     (case clearLoop (length (localStorage w)) (localStorage w) of
        (r, store) \<Rightarrow> (r, w\<lparr>localStorage := store\<rparr>))"

subsection \<open>InMemoryCache\<close>

definition InMemoryCache_set :: "string \<Rightarrow> nat \<Rightarrow> 'u world \<Rightarrow> 'u world" where
  "InMemoryCache_set key entry w = w\<lparr>cache := AList.update key entry (cache w)\<rparr>"

text \<open>
  \<^verbatim>\<open>cache[existingCacheKey]\<close>: the property name is the string of the value, so without
  a match the property read is the one named \<^verbatim>\<open>undefined\<close>.
\<close>

definition InMemoryCache_get ::
  "string \<Rightarrow> 'u world \<Rightarrow> (error + nat option) \<times> 'u world" where
  "InMemoryCache_get key w =
     (let cacheKey = fromKey key in
      case findExistingCacheKey cacheKey (Object_keys (cache w)) of
        Inl e \<Rightarrow> (Inl e, w)
      | Inr existingCacheKey \<Rightarrow>
          (case map_of (cache w) (interpolate existingCacheKey) of
             None \<Rightarrow> (Inr None, w)
           | Some cacheEntry \<Rightarrow> (Inr (Some cacheEntry), w)))"

definition InMemoryCache_remove :: "string \<Rightarrow> 'u world \<Rightarrow> 'u world" where
  "InMemoryCache_remove key w = w\<lparr>cache := AList.delete key (cache w)\<rparr>"

definition InMemoryCache_clear :: "'u world \<Rightarrow> (error + unit) \<times> 'u world" where
  "InMemoryCache_clear w = (Inr (), w\<lparr>cache := []\<rparr>)"

subsection \<open>The interface ICache and its two implementations\<close>

datatype ICache = LocalStorageCache | InMemoryCache

definition ICache_set :: "ICache \<Rightarrow> string \<Rightarrow> nat \<Rightarrow> 'u world \<Rightarrow> 'u world" where
  "ICache_set c key entry w =
     (case c of
        LocalStorageCache \<Rightarrow> LocalStorageCache_set key entry w
      | InMemoryCache \<Rightarrow> InMemoryCache_set key entry w)"

definition ICache_get ::
  "ICache \<Rightarrow> string \<Rightarrow> 'u world \<Rightarrow> (error + nat option) \<times> 'u world" where
  "ICache_get c key w =
     (case c of
        LocalStorageCache \<Rightarrow> LocalStorageCache_get key w
      | InMemoryCache \<Rightarrow> InMemoryCache_get key w)"

definition ICache_remove :: "ICache \<Rightarrow> string \<Rightarrow> 'u world \<Rightarrow> 'u world" where
  "ICache_remove c key w =
     (case c of
        LocalStorageCache \<Rightarrow> LocalStorageCache_remove key w
      | InMemoryCache \<Rightarrow> InMemoryCache_remove key w)"

definition ICache_clear :: "ICache \<Rightarrow> 'u world \<Rightarrow> (error + unit) \<times> 'u world" where
  "ICache_clear c w =
     (case c of
        LocalStorageCache \<Rightarrow> LocalStorageCache_clear w
      | InMemoryCache \<Rightarrow> InMemoryCache_clear w)"

subsection \<open>CacheManager\<close>

text \<open>
  \<open>now\<close> is \<^verbatim>\<open>Date.now()\<close>, in milliseconds. The result of \<^verbatim>\<open>get\<close> is the body
  returned (\<open>None\<close> for \<^verbatim>\<open>undefined\<close>) or the error of the backend, with the state
  the call leaves.
\<close>

definition CacheManager_get ::
  "ICache \<Rightarrow> CacheKey \<Rightarrow> int option \<Rightarrow> int \<Rightarrow> 'u world \<Rightarrow>
     (error + 'u Partial_CacheEntry option) \<times> 'u world" where
  "CacheManager_get c cacheKey expiryAdjustment now w =
     (let expiryAdjustmentSeconds =
            (case expiryAdjustment of
               None \<Rightarrow> DEFAULT_EXPIRY_ADJUSTMENT_SECONDS
             | Some a \<Rightarrow> a);
          key = toKey cacheKey
      in
      case ICache_get c key w of
        (Inl e, w1) \<Rightarrow> (Inl e, w1)
      | (Inr None, w1) \<Rightarrow> (Inr None, w1)
      | (Inr (Some r), w1) \<Rightarrow>
          (let nowSeconds = now div 1000;
               wrappedEntry = heap w1 ! r
           in
           if expiresAt wrappedEntry - expiryAdjustmentSeconds < nowSeconds then
             if truthy (Partial_CacheEntry.refresh_token (body wrappedEntry)) then
               (let truncated =
                      wrappedEntry\<lparr>body :=
                        refreshTokenOnly (Partial_CacheEntry.refresh_token (body wrappedEntry))\<rparr>;
                    w2 = w1\<lparr>heap := (heap w1)[r := truncated]\<rparr>;
                    w3 = ICache_set c key r w2
                in (Inr (Some (body (heap w3 ! r))), w3))
             else (Inr None, ICache_remove c key w1)
           else (Inr (Some (body wrappedEntry)), w1)))"

definition wrapCacheEntry :: "'u CacheEntry \<Rightarrow> int \<Rightarrow> 'u WrappedCacheEntry" where
  "wrapCacheEntry entry now =
     (let expiresInTime = now div 1000 + CacheEntry.expires_in entry;
          expirySeconds = min expiresInTime (exp (claims (CacheEntry.decodedToken entry)))
      in \<lparr>body = asPartial entry, expiresAt = expirySeconds\<rparr>)"

text \<open>The wrapped entry is a new object; the backend gets its reference.\<close>

definition CacheManager_set :: "ICache \<Rightarrow> 'u CacheEntry \<Rightarrow> int \<Rightarrow> 'u world \<Rightarrow> 'u world" where
  "CacheManager_set c entry now w =
     (let cacheKey =
            new_CacheKey (Some (CacheEntry.client_id entry)) (Some (CacheEntry.scope entry))
              (Some (CacheEntry.audience entry)) None;
          wrappedEntry = wrapCacheEntry entry now;
          r = length (heap w);
          w1 = w\<lparr>heap := heap w @ [wrappedEntry]\<rparr>
      in ICache_set c (toKey cacheKey) r w1)"

definition CacheManager_clear :: "ICache \<Rightarrow> 'u world \<Rightarrow> (error + unit) \<times> 'u world" where
  "CacheManager_clear c w = ICache_clear c w"

subsection \<open>oauthToken (src/api.ts)\<close>

text \<open>
  The options of the call: the fields that \<^verbatim>\<open>oauthToken\<close> takes apart, and \<open>options\<close>
  for the rest (\<^verbatim>\<open>...options\<close>, the grant parameters). An optional field is \<open>None\<close>
  when it is undefined.
\<close>

record ('p, 'c) TokenEndpointOptions =
  baseUrl :: string
  timeout :: "int option"
  audience :: "string option"
  scope :: "string option"
  auth0Client :: "'c option"
  useFormData :: "bool option"
  disableAuth0Client :: "bool option"
  tokenPath :: "string option"
  options :: 'p

text \<open>
  What \<^verbatim>\<open>oauthToken\<close> imports or takes from the platform, none of it among the sources:
  \<^verbatim>\<open>DEFAULT_AUTH0_CLIENT\<close> and \<^verbatim>\<open>DEFAULT_TOKEN_PATH\<close> of \<^verbatim>\<open>./constants\<close>,
  \<^verbatim>\<open>createQueryParams\<close> of \<^verbatim>\<open>./utils\<close>, \<^verbatim>\<open>JSON.stringify\<close> (on the grant parameters
  and on the client metadata) and \<^verbatim>\<open>btoa\<close>. They are parameters of the model.
\<close>

record ('p, 'c) environment =
  DEFAULT_AUTH0_CLIENT :: 'c
  DEFAULT_TOKEN_PATH :: string
  createQueryParams :: "'p \<Rightarrow> string"
  stringifyOptions :: "'p \<Rightarrow> string"
  stringifyClient :: "'c \<Rightarrow> string"
  btoa :: "string \<Rightarrow> string"

text \<open>The third argument of \<^verbatim>\<open>getJSON\<close>: the description of the request.\<close>

record fetchOptions =
  requestMethod :: string
  body :: string
  headers :: "(string \<times> string) list"

text \<open>
  \<^verbatim>\<open>oauthToken\<close> ends in the call of \<^verbatim>\<open>getJSON\<close> (of \<^verbatim>\<open>./http\<close>, not among the
  sources), which performs the request; the model returns the arguments of that call.
\<close>

record 'w getJSON_call =
  url :: string
  callTimeout :: "int option"
  callAudience :: string
  callScope :: "string option"
  request :: fetchOptions
  worker :: "'w option"
  callUseFormData :: "bool option"

text \<open>Truthiness of an optional boolean.\<close>

definition isSet :: "bool option \<Rightarrow> bool" where
  "isSet v = (v = Some True)"

definition oauthToken ::
  "('p, 'c) environment \<Rightarrow> ('p, 'c) TokenEndpointOptions \<Rightarrow> 'w option \<Rightarrow> 'w getJSON_call" where
  "oauthToken env opts wrk =
     (let path = (case tokenPath opts of None \<Rightarrow> DEFAULT_TOKEN_PATH env | Some p \<Rightarrow> p);
          requestBody =
            (if isSet (useFormData opts) then createQueryParams env (options opts)
             else stringifyOptions env (options opts));
          contentType =
            [(''Content-Type'',
              if isSet (useFormData opts) then ''application/x-www-form-urlencoded''
              else ''application/json'')];
          allHeaders =
            (if \<not> isSet (disableAuth0Client opts) then
               AList.update ''Auth0-Client''
                 (btoa env
                    (stringifyClient env
                       (case auth0Client opts of
                          None \<Rightarrow> DEFAULT_AUTH0_CLIENT env
                        | Some client \<Rightarrow> client)))
                 contentType
             else contentType)
      in
      \<lparr>url = baseUrl opts @ ''/'' @ path,
       callTimeout = timeout opts,
       callAudience =
         (case TokenEndpointOptions.audience opts of
            None \<Rightarrow> ''default''
          | Some a \<Rightarrow> if a = [] then ''default'' else a),
       callScope = TokenEndpointOptions.scope opts,
       request = \<lparr>requestMethod = ''POST'', fetchOptions.body = requestBody, headers = allHeaders\<rparr>,
       worker = wrk,
       callUseFormData = useFormData opts\<rparr>)"

section \<open>Notions used to state the properties\<close>

text \<open>\<^verbatim>\<open>s.includes(sub)\<close> and \<^verbatim>\<open>s.endsWith(p)\<close>, to speak of the delimiter inside a component.\<close>

fun includesString :: "string \<Rightarrow> string \<Rightarrow> bool" where
  "includesString [] sub = (sub = [])"
| "includesString (c # cs) sub = (startsWith (c # cs) sub \<or> includesString cs sub)"

definition endsWith :: "string \<Rightarrow> string \<Rightarrow> bool" where
  "endsWith s p = (length p \<le> length s \<and> drop (length s - length p) s = p)"

text \<open>\<^verbatim>\<open>parts.join(sep)\<close>, the inverse of \<^verbatim>\<open>split\<close>.\<close>

fun joinWith :: "string \<Rightarrow> string list \<Rightarrow> string" where
  "joinWith sep [] = []"
| "joinWith sep [p] = p"
| "joinWith sep (p # q # ps) = p @ sep @ joinWith sep (q # ps)"

text \<open>The cache key of four given components.\<close>

definition keyOf :: "string \<Rightarrow> string \<Rightarrow> string \<Rightarrow> string \<Rightarrow> CacheKey" where
  "keyOf p c a s = new_CacheKey (Some c) (Some s) (Some a) (Some p)"

text \<open>
  The parts of a scope as the code takes them: the pieces between single spaces; none
  for an undefined scope.
\<close>

definition scopeParts :: "string option \<Rightarrow> string list" where
  "scopeParts v = (case v of None \<Rightarrow> [] | Some s \<Rightarrow> String_split s '' '')"

text \<open>
  The tokens of a scope in the words of the specification (split on whitespace): the
  non-empty pieces between white space, which is the space, the tab, the line feed, the
  vertical tab, the form feed and the carriage return; none for an undefined scope.
\<close>

definition isWhitespace :: "char \<Rightarrow> bool" where
  "isWhitespace c =
     (c \<in> set [CHR '' '', CHR 0x09, CHR 0x0A, CHR 0x0B, CHR 0x0C, CHR 0x0D])"

fun splitWhere :: "(char \<Rightarrow> bool) \<Rightarrow> string \<Rightarrow> string list" where
  "splitWhere sep [] = [[]]"
| "splitWhere sep (c # cs) =
     (if sep c then [] # splitWhere sep cs
      else (case splitWhere sep cs of [] \<Rightarrow> [[c]] | p # ps \<Rightarrow> (c # p) # ps))"

definition whitespaceTokens :: "string \<Rightarrow> string list" where
  "whitespaceTokens s = filter (\<lambda>t. t \<noteq> []) (splitWhere isWhitespace s)"

definition scopeTokens :: "string option \<Rightarrow> string list" where
  "scopeTokens v = (case v of None \<Rightarrow> [] | Some s \<Rightarrow> whitespaceTokens s)"

text \<open>
  The rule of selection in the words of the specification: the prefix is the namespace
  tag, client_id and audience are those requested, and the stored scope set (split on
  white space) contains every token of the requested scope set.
\<close>

definition specSelectable :: "CacheKey \<Rightarrow> string \<Rightarrow> bool" where
  "specSelectable requested key =
     (let stored = fromKey key in
      prefix stored = Some keyPrefix \<and>
      CacheKey.client_id stored = CacheKey.client_id requested \<and>
      CacheKey.audience stored = CacheKey.audience requested \<and>
      set (scopeTokens (CacheKey.scope requested)) \<subseteq> set (scopeTokens (CacheKey.scope stored)))"

text \<open>
  The rule as the code computes it: the stored scope is not empty, and its parts between
  single spaces contain every part of the requested scope.
\<close>

definition selectable :: "CacheKey \<Rightarrow> string \<Rightarrow> bool" where
  "selectable requested key =
     (let stored = fromKey key in
      prefix stored = Some keyPrefix \<and>
      CacheKey.client_id stored = CacheKey.client_id requested \<and>
      CacheKey.audience stored = CacheKey.audience requested \<and>
      truthy (CacheKey.scope stored) \<and>
      set (scopeParts (CacheKey.scope requested)) \<subseteq> set (scopeParts (CacheKey.scope stored)))"

text \<open>
  Scopes on which the two ways of splitting agree. A scope is a list of tokens separated
  by single spaces when its only white space is the space and no piece between two spaces
  (or before the first, or after the last) is empty; such a scope is not empty. The scope
  of a stored key is plain when its only white space is the space.
\<close>

definition singleSpaced :: "string \<Rightarrow> bool" where
  "singleSpaced s =
     ((\<forall>c \<in> set s. isWhitespace c \<longrightarrow> c = CHR '' '') \<and> [] \<notin> set (String_split s '' ''))"

definition plainScope :: "string \<Rightarrow> bool" where
  "plainScope key =
     (case CacheKey.scope (fromKey key) of
        None \<Rightarrow> True
      | Some t \<Rightarrow> \<forall>c \<in> set t. isWhitespace c \<longrightarrow> c = CHR '' '')"

text \<open>
  The key that each backend selects for a requested key string: the value of
  \<^verbatim>\<open>existingCacheKey\<close> in \<^verbatim>\<open>LocalStorageCache.readJson\<close> and in
  \<^verbatim>\<open>InMemoryCache.get\<close>.
\<close>

definition durableSelection :: "string \<Rightarrow> 'u world \<Rightarrow> error + string option" where
  "durableSelection key w = findExistingCacheKey (fromKey key) (Object_keys (localStorage w))"

definition ephemeralSelection :: "string \<Rightarrow> 'u world \<Rightarrow> error + string option" where
  "ephemeralSelection key w = findExistingCacheKey (fromKey key) (Object_keys (cache w))"

text \<open>The keys that a backend enumerates, and the wrapped entry that it holds under a key.\<close>

definition storedKeys :: "ICache \<Rightarrow> 'u world \<Rightarrow> string list" where
  "storedKeys c w =
     (case c of
        LocalStorageCache \<Rightarrow> Object_keys (localStorage w)
      | InMemoryCache \<Rightarrow> Object_keys (cache w))"

definition holds :: "ICache \<Rightarrow> 'u world \<Rightarrow> string \<Rightarrow> 'u WrappedCacheEntry \<Rightarrow> bool" where
  "holds c w k e =
     (case c of
        LocalStorageCache \<Rightarrow> map_of (localStorage w) k = Some (Json (Object e))
      | InMemoryCache \<Rightarrow>
          (case map_of (cache w) k of
             None \<Rightarrow> False
           | Some r \<Rightarrow> r < length (heap w) \<and> heap w ! r = e))"

text \<open>
  The expiry test of \<^verbatim>\<open>CacheManager.get\<close>, the test for a refresh token, and the entry
  reduced to its refresh token.
\<close>

definition adjustmentOf :: "int option \<Rightarrow> int" where
  "adjustmentOf adjustment =
     (case adjustment of None \<Rightarrow> DEFAULT_EXPIRY_ADJUSTMENT_SECONDS | Some a \<Rightarrow> a)"

definition expired :: "'u WrappedCacheEntry \<Rightarrow> int option \<Rightarrow> int \<Rightarrow> bool" where
  "expired e adjustment now = (expiresAt e - adjustmentOf adjustment < now div 1000)"

definition hasRefreshToken :: "'u WrappedCacheEntry \<Rightarrow> bool" where
  "hasRefreshToken e = truthy (Partial_CacheEntry.refresh_token (WrappedCacheEntry.body e))"

definition remnant :: "'u WrappedCacheEntry \<Rightarrow> 'u WrappedCacheEntry" where
  "remnant e =
     e\<lparr>WrappedCacheEntry.body :=
         refreshTokenOnly (Partial_CacheEntry.refresh_token (WrappedCacheEntry.body e))\<rparr>"

text \<open>
  Sample data for the examples (the scenario of the specification): an entry of client
  \<^verbatim>\<open>app\<close> for audience \<^verbatim>\<open>api\<close> and scope \<^verbatim>\<open>read write\<close> with a lifetime of 3600
  seconds whose ID token expires at second 1060, written at second 1000.
\<close>

definition emptyWorld :: "'u world" where
  "emptyWorld = \<lparr>heap = [], localStorage = [], cache = []\<rparr>"

definition sampleEntry :: "string CacheEntry" where
  "sampleEntry =
     \<lparr>CacheEntry.id_token = ''id1'',
      CacheEntry.access_token = ''at1'',
      CacheEntry.expires_in = 3600,
      CacheEntry.decodedToken = \<lparr>claims = \<lparr>exp = 1060\<rparr>, user = ''alice''\<rparr>,
      CacheEntry.audience = ''api'',
      CacheEntry.scope = ''read write'',
      CacheEntry.client_id = ''app'',
      CacheEntry.refresh_token = Some ''rt1''\<rparr>"

definition sampleWorld :: "ICache \<Rightarrow> string world" where
  "sampleWorld c = CacheManager_set c sampleEntry 1000000 emptyWorld"

text \<open>
  A state in which the two backends hold the same two keys in different orders: the
  sample entry was written for the scopes \<^verbatim>\<open>read admin\<close> and \<^verbatim>\<open>read write\<close>, to the
  durable backend in this order and to the ephemeral backend in the other order.
\<close>

definition reorderedWorld :: "string world" where
  "reorderedWorld =
     CacheManager_set InMemoryCache (sampleEntry\<lparr>CacheEntry.scope := ''read admin''\<rparr>) 1000000
       (CacheManager_set InMemoryCache sampleEntry 1000000
          (CacheManager_set LocalStorageCache sampleEntry 1000000
             (CacheManager_set LocalStorageCache
                (sampleEntry\<lparr>CacheEntry.scope := ''read admin''\<rparr>) 1000000 emptyWorld)))"

text \<open>A stored item whose key carries the namespace prefix.\<close>

definition namespaced :: "string \<times> 'v \<Rightarrow> bool" where
  "namespaced item = startsWith (fst item) keyPrefix"

section \<open>Splitting and joining at the delimiter\<close>

lemma splitOn_nonempty: "splitOn sep s \<noteq> []"
  by (induction sep s rule: splitOn.induct) (auto split: list.splits)

lemma join_split: "sep \<noteq> [] \<Longrightarrow> joinWith sep (splitOn sep s) = s"
proof (induction sep s rule: splitOn.induct)
  case (1 sep)
  then show ?case by simp
next
  case (2 sep c cs)
  show ?case
  proof (cases "startsWith (c # cs) sep")
    case True
    then have e: "c # cs = sep @ drop (length sep) (c # cs)"
      unfolding startsWith_def by (metis append_take_drop_id)
    obtain p ps where pp: "splitOn sep (drop (length sep) (c # cs)) = p # ps"
      using splitOn_nonempty by (cases "splitOn sep (drop (length sep) (c # cs))") auto
    have "joinWith sep (p # ps) = drop (length sep) (c # cs)"
      using 2(1) True 2(3) pp by simp
    then show ?thesis
      using True 2(3) pp e by (simp del: drop_Suc_Cons)
  next
    case False
    obtain p ps where pp: "splitOn sep cs = p # ps"
      using splitOn_nonempty by (cases "splitOn sep cs") auto
    have "joinWith sep (p # ps) = cs"
      using 2(2) False 2(3) pp by simp
    then show ?thesis
      using False pp by (cases ps) auto
  qed
qed

lemma joinWith_append:
  "xs \<noteq> [] \<Longrightarrow> ys \<noteq> [] \<Longrightarrow>
   joinWith sep (xs @ ys) = joinWith sep xs @ sep @ joinWith sep ys"
proof (induction sep xs rule: joinWith.induct)
  case (1 sep)
  then show ?case by simp
next
  case (2 sep p)
  then show ?case by (cases ys) auto
next
  case (3 sep p q ps)
  then show ?case by simp
qed

lemma element_0_splitOn: "element (splitOn sep s) 0 = Some (hd (splitOn sep s))"
  using splitOn_nonempty[of sep s] by (cases "splitOn sep s") (auto simp: element_def)

lemma toKey_fromKey_parts:
  "toKey (fromKey k) =
     joinWith ''::'' (map (\<lambda>i. interpolate (element (splitOn ''::'' k) i)) [0, 1, 2, 3])"
  by (simp add: toKey_def fromKey_def new_CacheKey_def String_split_def Let_def
      element_0_splitOn)

lemma roundtrip_four:
  assumes "length (splitOn ''::'' k) = 4"
  shows "toKey (fromKey k) = k"
proof -
  obtain a b c d where p: "splitOn ''::'' k = [a, b, c, d]"
    using assms by (auto simp: length_Suc_conv numeral_eq_Suc)
  have "joinWith ''::'' (splitOn ''::'' k) = k"
    by (rule join_split) simp
  then show ?thesis
    unfolding toKey_fromKey_parts p by (simp add: element_def interpolate_def)
qed

lemma short_list_cases:
  assumes "xs \<noteq> []" and "length xs < 4"
  obtains a where "xs = [a]" | a b where "xs = [a, b]" | a b c where "xs = [a, b, c]"
proof (cases xs)
  case Nil
  with assms show ?thesis by simp
next
  case c1: (Cons a r1)
  show ?thesis
  proof (cases r1)
    case Nil
    with c1 that show ?thesis by simp
  next
    case c2: (Cons b r2)
    show ?thesis
    proof (cases r2)
      case Nil
      with c1 c2 that show ?thesis by simp
    next
      case c3: (Cons c r3)
      with c1 c2 assms have "r3 = []" by simp
      with c1 c2 c3 that show ?thesis by simp
    qed
  qed
qed

lemma length_toKey_fromKey_short:
  assumes "length (splitOn ''::'' k) < 4"
  shows "length (toKey (fromKey k)) > length k"
proof -
  have j: "joinWith ''::'' (splitOn ''::'' k) = k"
    by (rule join_split) simp
  have ne: "splitOn ''::'' k \<noteq> []"
    by (rule splitOn_nonempty)
  consider a where "splitOn ''::'' k = [a]" | a b where "splitOn ''::'' k = [a, b]"
    | a b c where "splitOn ''::'' k = [a, b, c]"
    using short_list_cases[OF ne assms] by blast
  then show ?thesis
  proof cases
    case 1
    with j show ?thesis
      unfolding toKey_fromKey_parts by (auto simp: element_def interpolate_def)
  next
    case 2
    with j show ?thesis
      unfolding toKey_fromKey_parts by (auto simp: element_def interpolate_def)
  next
    case 3
    with j show ?thesis
      unfolding toKey_fromKey_parts by (auto simp: element_def interpolate_def)
  qed
qed

lemma length_toKey_fromKey_long:
  assumes "length (splitOn ''::'' k) > 4"
  shows "length (toKey (fromKey k)) < length k"
proof -
  have j: "joinWith ''::'' (splitOn ''::'' k) = k"
    by (rule join_split) simp
  obtain a b c d rest where p0: "splitOn ''::'' k = a # b # c # d # rest" and ne: "rest \<noteq> []"
    using assms by (auto simp: length_Suc_conv numeral_eq_Suc Suc_less_eq2)
  obtain e r where "rest = e # r"
    using ne by (cases rest) auto
  with p0 have p: "splitOn ''::'' k = [a, b, c, d] @ (e # r)"
    by simp
  have "joinWith ''::'' ([a, b, c, d] @ (e # r)) =
          joinWith ''::'' [a, b, c, d] @ ''::'' @ joinWith ''::'' (e # r)"
    by (rule joinWith_append) simp_all
  then have "k = joinWith ''::'' [a, b, c, d] @ ''::'' @ joinWith ''::'' (e # r)"
    using j p by simp
  moreover have "toKey (fromKey k) = joinWith ''::'' [a, b, c, d]"
    unfolding toKey_fromKey_parts p by (simp add: element_def interpolate_def)
  ultimately have "length k = length (toKey (fromKey k)) + 2 + length (joinWith ''::'' (e # r))"
    by (metis length_append add.assoc length_Cons list.size(3) One_nat_def Suc_1 plus_1_eq_Suc
        add_Suc_right add_0_right add_Suc)
  then show ?thesis by simp
qed

lemma roundtrip_iff: "toKey (fromKey k) = k \<longleftrightarrow> length (splitOn ''::'' k) = 4"
proof
  assume e: "toKey (fromKey k) = k"
  show "length (splitOn ''::'' k) = 4"
  proof (rule ccontr)
    assume "length (splitOn ''::'' k) \<noteq> 4"
    then consider "length (splitOn ''::'' k) < 4" | "length (splitOn ''::'' k) > 4"
      by linarith
    then show False
    proof cases
      case 1
      from length_toKey_fromKey_short[OF 1] e show False by simp
    next
      case 2
      from length_toKey_fromKey_long[OF 2] e show False by simp
    qed
  qed
next
  assume "length (splitOn ''::'' k) = 4"
  then show "toKey (fromKey k) = k" by (rule roundtrip_four)
qed

lemma splitOn_single: "\<not> includesString x ''::'' \<Longrightarrow> splitOn ''::'' x = [x]"
  by (induction x) simp_all

lemma endsWith_Cons: "x \<noteq> [] \<Longrightarrow> endsWith (c # x) '':'' = endsWith x '':''"
  by (cases x rule: rev_cases) (auto simp: endsWith_def)

lemma splitOn_component:
  assumes "\<not> includesString x ''::''" and "\<not> endsWith x '':''"
  shows "splitOn ''::'' (x @ ''::'' @ rest) = x # splitOn ''::'' rest"
  using assms
proof (induction x)
  case Nil
  then show ?case by (simp add: startsWith_def)
next
  case (Cons c x)
  show ?case
  proof (cases "x = []")
    case True
    with Cons.prems have "c \<noteq> CHR '':''"
      by (auto simp: endsWith_def)
    then show ?thesis
      using True by (simp add: startsWith_def)
  next
    case False
    then have e: "\<not> endsWith x '':''"
      using Cons.prems(2) by (simp add: endsWith_Cons)
    have i: "\<not> includesString x ''::''"
      using Cons.prems(1) by simp
    have ns: "\<not> startsWith (c # x @ ''::'' @ rest) ''::''"
      using Cons.prems(1) False by (cases x) (auto simp: startsWith_def)
    show ?thesis
      using Cons.IH[OF i e] ns by simp
  qed
qed

lemma splitOn_four:
  assumes "\<not> includesString p ''::''" "\<not> endsWith p '':''"
    and "\<not> includesString c ''::''" "\<not> endsWith c '':''"
    and "\<not> includesString a ''::''" "\<not> endsWith a '':''"
    and "\<not> includesString s ''::''"
  shows "splitOn ''::'' (p @ ''::'' @ c @ ''::'' @ a @ ''::'' @ s) = [p, c, a, s]"
proof -
  have "splitOn ''::'' (p @ ''::'' @ c @ ''::'' @ a @ ''::'' @ s) =
          p # splitOn ''::'' (c @ ''::'' @ a @ ''::'' @ s)"
    by (rule splitOn_component[OF assms(1,2)])
  also have "splitOn ''::'' (c @ ''::'' @ a @ ''::'' @ s) = c # splitOn ''::'' (a @ ''::'' @ s)"
    by (rule splitOn_component[OF assms(3,4)])
  also have "splitOn ''::'' (a @ ''::'' @ s) = a # splitOn ''::'' s"
    by (rule splitOn_component[OF assms(5,6)])
  also have "splitOn ''::'' s = [s]"
    by (rule splitOn_single[OF assms(7)])
  finally show ?thesis .
qed

lemma toKey_keyOf: "toKey (keyOf p c a s) = p @ ''::'' @ c @ ''::'' @ a @ ''::'' @ s"
  by (simp add: toKey_def keyOf_def new_CacheKey_def interpolate_def)

lemma fromKey_toKey_keyOf:
  assumes "\<not> includesString p ''::''" "\<not> endsWith p '':''"
    and "\<not> includesString c ''::''" "\<not> endsWith c '':''"
    and "\<not> includesString a ''::''" "\<not> endsWith a '':''"
    and "\<not> includesString s ''::''"
  shows "fromKey (toKey (keyOf p c a s)) = keyOf p c a s"
proof -
  have "String_split (toKey (keyOf p c a s)) ''::'' = [p, c, a, s]"
    using splitOn_four[OF assms] by (simp add: toKey_keyOf String_split_def)
  then show ?thesis
    by (simp add: fromKey_def element_def keyOf_def)
qed

section \<open>C5: the round trip through a key string\<close>

text \<open>
  C5, as the code has it. For every string \<open>k\<close>, \<open>toKey (fromKey k) = k\<close> holds exactly
  when \<open>k\<close> splits at the delimiter \<^verbatim>\<open>::\<close> into four parts. A key made by \<open>toKey\<close> from
  four components has exactly these four parts, and \<open>fromKey\<close> gives the components back,
  when no component contains the delimiter and none of prefix, client_id and audience
  ends with a colon; then the round trip is the identity on the key.
\<close>

theorem toKey_fromKey_roundtrip:
  "(toKey (fromKey k) = k \<longleftrightarrow> length (String_split k ''::'') = 4) \<and>
   ((\<forall>x \<in> set [p, c, a, s]. \<not> includesString x ''::'') \<and>
    (\<forall>x \<in> set [p, c, a]. \<not> endsWith x '':'') \<longrightarrow>
      fromKey (toKey (keyOf p c a s)) = keyOf p c a s \<and>
      toKey (fromKey (toKey (keyOf p c a s))) = toKey (keyOf p c a s))"
proof (intro conjI impI)
  show "toKey (fromKey k) = k \<longleftrightarrow> length (String_split k ''::'') = 4"
    using roundtrip_iff[of k] by (simp add: String_split_def)
next
  assume h: "(\<forall>x \<in> set [p, c, a, s]. \<not> includesString x ''::'') \<and>
    (\<forall>x \<in> set [p, c, a]. \<not> endsWith x '':'')"
  then show f: "fromKey (toKey (keyOf p c a s)) = keyOf p c a s"
    by (intro fromKey_toKey_keyOf) simp_all
  then show "toKey (fromKey (toKey (keyOf p c a s))) = toKey (keyOf p c a s)"
    by simp
qed

text \<open>
  The theorem at the key of client \<^verbatim>\<open>app\<close>, audience \<^verbatim>\<open>https://api\<close> and scope
  \<^verbatim>\<open>openid profile\<close> under the default prefix.
\<close>

theorem toKey_fromKey_roundtrip_witness:
  "length (String_split ''@@auth0spajs@@::app::https://api::openid profile'' ''::'') = 4 \<and>
   toKey (fromKey ''@@auth0spajs@@::app::https://api::openid profile'') =
     ''@@auth0spajs@@::app::https://api::openid profile'' \<and>
   \<not> includesString ''@@auth0spajs@@'' ''::'' \<and> \<not> endsWith ''@@auth0spajs@@'' '':'' \<and>
   \<not> includesString ''app'' ''::'' \<and> \<not> endsWith ''app'' '':'' \<and>
   \<not> includesString ''https://api'' ''::'' \<and> \<not> endsWith ''https://api'' '':'' \<and>
   \<not> includesString ''openid profile'' ''::'' \<and>
   toKey (keyOf ''@@auth0spajs@@'' ''app'' ''https://api'' ''openid profile'') =
     ''@@auth0spajs@@::app::https://api::openid profile'' \<and>
   fromKey ''@@auth0spajs@@::app::https://api::openid profile'' =
     keyOf ''@@auth0spajs@@'' ''app'' ''https://api'' ''openid profile''"
  using toKey_fromKey_roundtrip[of "''@@auth0spajs@@::app::https://api::openid profile''"
      "''@@auth0spajs@@''" "''app''" "''https://api''" "''openid profile''"]
  by (simp add: startsWith_def endsWith_def toKey_keyOf String_split_def)

text \<open>
  C5 as it is stated fails: no component contains the delimiter, but a component that is
  a single colon joins the delimiters around it. With client_id, audience and scope all
  \<^verbatim>\<open>:\<close> the key has nine colons after the prefix and splits into five parts, of which
  \<open>fromKey\<close> keeps the first four: the prefix and three empty strings.
\<close>

theorem toKey_fromKey_colon_counterexample:
  "\<not> includesString keyPrefix ''::'' \<and> \<not> includesString '':'' ''::'' \<and>
   toKey (keyOf keyPrefix '':'' '':'' '':'') = ''@@auth0spajs@@:::::::::'' \<and>
   toKey (fromKey (toKey (keyOf keyPrefix '':'' '':'' '':''))) = ''@@auth0spajs@@::::::'' \<and>
   toKey (fromKey (toKey (keyOf keyPrefix '':'' '':'' '':''))) \<noteq>
     toKey (keyOf keyPrefix '':'' '':'' '':'')"
  by code_simp

section \<open>The scan of the stored keys\<close>

lemma foldl_conj_all:
  "foldl (\<lambda>acc x. acc \<and> P x) b xs = (b \<and> (\<forall>x \<in> set xs. P x))"
  by (induction xs arbitrary: b) auto

lemma hasAllScopes_defined:
  "hasAllScopes (Some s) cur =
     Inr (truthy cur \<and> set (String_split s '' '') \<subseteq> set (scopeParts cur))"
  by (auto simp: hasAllScopes_def truthy_def scopeParts_def foldl_conj_all Let_def
      split: option.splits)

lemma hasAllScopes_falsy: "\<not> truthy cur \<Longrightarrow> hasAllScopes requested cur = Inr False"
  by (auto simp: hasAllScopes_def truthy_def split: option.splits)

lemma matchesCacheKey_defined:
  "CacheKey.scope requested = Some s \<Longrightarrow>
   matchesCacheKey requested key = Inr (selectable requested key)"
  by (auto simp: matchesCacheKey_def selectable_def hasAllScopes_defined Let_def scopeParts_def)

lemma matchesCacheKey_falsy:
  "\<not> truthy (CacheKey.scope (fromKey key)) \<Longrightarrow> matchesCacheKey requested key = Inr False"
  by (simp add: matchesCacheKey_def hasAllScopes_falsy Let_def)

lemma matchesCacheKey_True:
  "matchesCacheKey requested key = Inr True \<Longrightarrow>
   truthy (CacheKey.scope (fromKey key)) \<and> prefix (fromKey key) = Some keyPrefix"
  using matchesCacheKey_falsy[of key requested]
  by (auto simp: matchesCacheKey_def Let_def split: sum.splits)

lemma filterThrowing_total:
  "(\<And>x. x \<in> set xs \<Longrightarrow> f x = Inr (P x)) \<Longrightarrow> filterThrowing f xs = Inr (filter P xs)"
  by (induction xs) auto

lemma filterThrowing_Inr:
  "filterThrowing f xs = Inr ys \<Longrightarrow> ys = filter (\<lambda>x. f x = Inr True) xs"
  by (induction xs arbitrary: ys) (auto split: sum.splits if_splits)

lemma filterThrowing_removeAll:
  "f k = Inr False \<Longrightarrow> filterThrowing f (removeAll k xs) = filterThrowing f xs"
  by (induction xs) (auto split: sum.splits)

lemma element_0_filter: "element (filter P xs) 0 = find P xs"
  by (induction xs) (auto simp: element_def)

lemma findExistingCacheKey_defined:
  "CacheKey.scope requested = Some s \<Longrightarrow>
   findExistingCacheKey requested keys = Inr (find (selectable requested) keys)"
  by (simp add: findExistingCacheKey_def filterThrowing_total[where P = "selectable requested"]
      matchesCacheKey_defined element_0_filter)

lemma findExistingCacheKey_Some:
  assumes "findExistingCacheKey requested keys = Inr (Some k)"
  shows "k \<in> set keys \<and> matchesCacheKey requested k = Inr True"
proof -
  obtain ys where ys: "filterThrowing (matchesCacheKey requested) keys = Inr ys"
    and e: "element ys 0 = Some k"
    using assms by (auto simp: findExistingCacheKey_def split: sum.splits)
  have "ys = filter (\<lambda>x. matchesCacheKey requested x = Inr True) keys"
    using ys by (rule filterThrowing_Inr)
  then have "find (\<lambda>x. matchesCacheKey requested x = Inr True) keys = Some k"
    using e by (simp add: element_0_filter)
  then show ?thesis
    by (auto simp: find_Some_iff)
qed

lemma findExistingCacheKey_removeAll:
  "matchesCacheKey requested k = Inr False \<Longrightarrow>
   findExistingCacheKey requested (removeAll k keys) = findExistingCacheKey requested keys"
  by (simp add: findExistingCacheKey_def filterThrowing_removeAll)

lemma split_abc: "String_split ''a b c'' '' '' = [''a'', ''b'', ''c'']"
  by code_simp

lemma split_abcd: "String_split ''a b c d'' '' '' = [''a'', ''b'', ''c'', ''d'']"
  by code_simp

lemma keyPrefix_clean: "\<not> includesString keyPrefix ''::'' \<and> \<not> endsWith keyPrefix '':''"
  by code_simp

lemma selectable_stored_abc:
  assumes "\<not> includesString c ''::''" "\<not> endsWith c '':''"
    and "\<not> includesString a ''::''" "\<not> endsWith a '':''"
  shows "selectable (keyOf keyPrefix c a q) (toKey (keyOf keyPrefix c a ''a b c'')) \<longleftrightarrow>
           set (String_split q '' '') \<subseteq> {''a'', ''b'', ''c''}"
proof -
  have "\<not> includesString ''a b c'' ''::''"
    by code_simp
  then have "fromKey (toKey (keyOf keyPrefix c a ''a b c'')) = keyOf keyPrefix c a ''a b c''"
    using keyPrefix_clean assms by (intro fromKey_toKey_keyOf) simp_all
  then show ?thesis
    by (auto simp: selectable_def keyOf_def new_CacheKey_def scopeParts_def truthy_def split_abc)
qed

section \<open>Scopes on which the code's rule is the rule of the specification\<close>

lemma splitWhere_nonempty: "splitWhere sep s \<noteq> []"
  by (induction s) (auto split: list.splits)

lemma isWhitespace_space: "isWhitespace (CHR '' '')"
  by (simp add: isWhitespace_def)

lemma splitWhere_spaces:
  "(\<forall>c \<in> set s. isWhitespace c \<longrightarrow> c = CHR '' '') \<Longrightarrow>
   splitWhere isWhitespace s = String_split s '' ''"
proof (induction s)
  case Nil
  then show ?case by (simp add: String_split_def)
next
  case (Cons c s)
  then have ih: "splitWhere isWhitespace s = splitOn '' '' s"
    by (simp add: String_split_def)
  have "isWhitespace c \<longleftrightarrow> c = CHR '' ''"
    using Cons.prems isWhitespace_space by auto
  then show ?case
    using ih by (simp add: String_split_def startsWith_def)
qed

lemma whitespaceTokens_singleSpaced:
  "singleSpaced s \<Longrightarrow> whitespaceTokens s = String_split s '' ''"
  by (auto simp: singleSpaced_def whitespaceTokens_def splitWhere_spaces filter_id_conv)

lemma whitespaceTokens_plain:
  "(\<forall>c \<in> set t. isWhitespace c \<longrightarrow> c = CHR '' '') \<Longrightarrow>
   set (whitespaceTokens t) = set (String_split t '' '') - {[]}"
  by (auto simp: whitespaceTokens_def splitWhere_spaces)

lemma String_split_nonempty: "String_split s '' '' \<noteq> []"
  by (simp add: String_split_def splitOn_nonempty)

lemma selectable_specSelectable:
  assumes "CacheKey.scope requested = Some s" and "singleSpaced s" and "plainScope key"
  shows "selectable requested key \<longleftrightarrow> specSelectable requested key"
proof -
  let ?parts = "String_split s '' ''"
  have tok: "scopeTokens (CacheKey.scope requested) = ?parts"
    using assms(1,2) by (simp add: scopeTokens_def whitespaceTokens_singleSpaced)
  have ne: "[] \<notin> set ?parts" and ex: "?parts \<noteq> []"
    using assms(2) String_split_nonempty by (simp_all add: singleSpaced_def)
  have "truthy (CacheKey.scope (fromKey key)) \<and>
          set ?parts \<subseteq> set (scopeParts (CacheKey.scope (fromKey key))) \<longleftrightarrow>
        set ?parts \<subseteq> set (scopeTokens (CacheKey.scope (fromKey key)))"
  proof (cases "CacheKey.scope (fromKey key)")
    case None
    then show ?thesis
      using ex by (simp add: truthy_def scopeTokens_def scopeParts_def)
  next
    case (Some t)
    then have pl: "\<forall>c \<in> set t. isWhitespace c \<longrightarrow> c = CHR '' ''"
      using assms(3) by (simp add: plainScope_def)
    have st: "set (scopeTokens (Some t)) = set (String_split t '' '') - {[]}"
      using whitespaceTokens_plain[OF pl] by (simp add: scopeTokens_def)
    show ?thesis
    proof (cases "t = []")
      case True
      have "set (String_split [] '' '') - {[]} = {}"
        by (simp add: String_split_def)
      then have "set (scopeTokens (Some t)) = {}"
        using st True by simp
      moreover have "set (String_split s '' '') \<noteq> {}"
        using ex by simp
      ultimately show ?thesis
        using Some True by (simp add: truthy_def)
    next
      case False
      then show ?thesis
        using Some st ne by (auto simp: truthy_def scopeParts_def)
    qed
  qed
  then show ?thesis
    using assms(1) tok by (simp add: selectable_def specSelectable_def Let_def scopeParts_def)
qed

lemma find_cong_set: "(\<And>x. x \<in> set xs \<Longrightarrow> P x = Q x) \<Longrightarrow> find P xs = find Q xs"
  by (induction xs) auto

lemma findExistingCacheKey_spec:
  assumes "CacheKey.scope requested = Some s" and "singleSpaced s"
    and "\<forall>k \<in> set keys. plainScope k"
  shows "findExistingCacheKey requested keys = Inr (find (specSelectable requested) keys)"
proof -
  have "find (selectable requested) keys = find (specSelectable requested) keys"
    using assms by (intro find_cong_set selectable_specSelectable) simp_all
  then show ?thesis
    using findExistingCacheKey_defined[OF assms(1)] by simp
qed

lemma selectable_stored_abc_tokens:
  assumes "\<not> includesString c ''::''" "\<not> endsWith c '':''"
    and "\<not> includesString a ''::''" "\<not> endsWith a '':''"
    and "singleSpaced q"
  shows "selectable (keyOf keyPrefix c a q) (toKey (keyOf keyPrefix c a ''a b c'')) \<longleftrightarrow>
           set (whitespaceTokens q) \<subseteq> {''a'', ''b'', ''c''}"
  using selectable_stored_abc[OF assms(1-4), of q] assms(5)
  by (simp add: whitespaceTokens_singleSpaced)

section \<open>C1: the key that the lookup selects\<close>

text \<open>
  C1, as the code has it. Let the scope of the requested key be a list of tokens separated
  by single spaces, and let no stored key have white space other than the space in its
  scope. Then \<open>findExistingCacheKey\<close> returns the first stored key, in the order of
  enumeration, whose prefix is the namespace tag, whose client_id and audience are those
  requested, and whose stored scope set contains every token of the requested scope set.
  A key stored for the scope \<^verbatim>\<open>a b c\<close> is selected for every such requested scope whose
  tokens are among a, b and c, and is not selected for \<^verbatim>\<open>a b c d\<close>. Nothing is said
  here of a requested scope that is empty or has an empty piece between two spaces.
\<close>

theorem findExistingCacheKey_selects_first_match:
  "(CacheKey.scope requested = Some s \<and> singleSpaced s \<and> (\<forall>k \<in> set keys. plainScope k) \<longrightarrow>
      findExistingCacheKey requested keys = Inr (find (specSelectable requested) keys)) \<and>
   (\<not> includesString c ''::'' \<and> \<not> endsWith c '':'' \<and>
    \<not> includesString a ''::'' \<and> \<not> endsWith a '':'' \<longrightarrow>
      (singleSpaced q \<and> set (whitespaceTokens q) \<subseteq> {''a'', ''b'', ''c''} \<longrightarrow>
         findExistingCacheKey (keyOf keyPrefix c a q) [toKey (keyOf keyPrefix c a ''a b c'')] =
           Inr (Some (toKey (keyOf keyPrefix c a ''a b c'')))) \<and>
      findExistingCacheKey (keyOf keyPrefix c a ''a b c d'')
        [toKey (keyOf keyPrefix c a ''a b c'')] = Inr None)"
proof (intro conjI impI)
  assume "CacheKey.scope requested = Some s \<and> singleSpaced s \<and> (\<forall>k \<in> set keys. plainScope k)"
  then show "findExistingCacheKey requested keys = Inr (find (specSelectable requested) keys)"
    using findExistingCacheKey_spec by blast
next
  assume h: "\<not> includesString c ''::'' \<and> \<not> endsWith c '':'' \<and>
    \<not> includesString a ''::'' \<and> \<not> endsWith a '':''"
  assume q: "singleSpaced q \<and> set (whitespaceTokens q) \<subseteq> {''a'', ''b'', ''c''}"
  have sc: "CacheKey.scope (keyOf keyPrefix c a q) = Some q"
    by (simp add: keyOf_def new_CacheKey_def)
  have "selectable (keyOf keyPrefix c a q) (toKey (keyOf keyPrefix c a ''a b c''))"
    using h q by (simp add: selectable_stored_abc_tokens)
  then show "findExistingCacheKey (keyOf keyPrefix c a q) [toKey (keyOf keyPrefix c a ''a b c'')] =
           Inr (Some (toKey (keyOf keyPrefix c a ''a b c'')))"
    by (simp add: findExistingCacheKey_defined[OF sc])
next
  assume h: "\<not> includesString c ''::'' \<and> \<not> endsWith c '':'' \<and>
    \<not> includesString a ''::'' \<and> \<not> endsWith a '':''"
  have sc: "CacheKey.scope (keyOf keyPrefix c a ''a b c d'') = Some ''a b c d''"
    by (simp add: keyOf_def new_CacheKey_def)
  have "\<not> selectable (keyOf keyPrefix c a ''a b c d'') (toKey (keyOf keyPrefix c a ''a b c''))"
    using h by (simp add: selectable_stored_abc split_abcd)
  then show "findExistingCacheKey (keyOf keyPrefix c a ''a b c d'')
        [toKey (keyOf keyPrefix c a ''a b c'')] = Inr None"
    by (simp add: findExistingCacheKey_defined[OF sc])
qed

text \<open>
  The theorem at client \<^verbatim>\<open>app\<close> and audience \<^verbatim>\<open>api\<close>: among four stored keys the
  request for \<^verbatim>\<open>b c\<close> selects the first that has both tokens.
\<close>

theorem findExistingCacheKey_selects_first_match_witness:
  "CacheKey.scope (keyOf keyPrefix ''app'' ''api'' ''b c'') = Some ''b c'' \<and>
   singleSpaced ''b c'' \<and>
   list_all plainScope
     [''theme'', ''@@auth0spajs@@::app::api::c'', ''@@auth0spajs@@::app::api::a b c'',
      ''@@auth0spajs@@::app::api::c b''] \<and>
   find (specSelectable (keyOf keyPrefix ''app'' ''api'' ''b c''))
     [''theme'', ''@@auth0spajs@@::app::api::c'', ''@@auth0spajs@@::app::api::a b c'',
      ''@@auth0spajs@@::app::api::c b''] = Some ''@@auth0spajs@@::app::api::a b c'' \<and>
   findExistingCacheKey (keyOf keyPrefix ''app'' ''api'' ''b c'')
     [''theme'', ''@@auth0spajs@@::app::api::c'', ''@@auth0spajs@@::app::api::a b c'',
      ''@@auth0spajs@@::app::api::c b''] = Inr (Some ''@@auth0spajs@@::app::api::a b c'') \<and>
   \<not> includesString ''app'' ''::'' \<and> \<not> endsWith ''app'' '':'' \<and>
   \<not> includesString ''api'' ''::'' \<and> \<not> endsWith ''api'' '':'' \<and>
   set (whitespaceTokens ''b c'') \<subseteq> {''a'', ''b'', ''c''} \<and>
   findExistingCacheKey (keyOf keyPrefix ''app'' ''api'' ''b c'')
     [''@@auth0spajs@@::app::api::a b c''] = Inr (Some ''@@auth0spajs@@::app::api::a b c'') \<and>
   findExistingCacheKey (keyOf keyPrefix ''app'' ''api'' ''a b c d'')
     [''@@auth0spajs@@::app::api::a b c''] = Inr None"
  using findExistingCacheKey_selects_first_match[of "keyOf keyPrefix ''app'' ''api'' ''b c''"
      "''b c''"
      "[''theme'', ''@@auth0spajs@@::app::api::c'', ''@@auth0spajs@@::app::api::a b c'',
        ''@@auth0spajs@@::app::api::c b'']" "''app''" "''api''" "''b c''"]
  by code_simp

text \<open>
  C1 as it is stated fails where the split of the code, at every single space, is not a
  split on white space. In each of these five cases the rule in the words of the
  specification selects the stored key and the code selects nothing: the request
  \<^verbatim>\<open>a  b\<close> with two spaces against the key stored for \<^verbatim>\<open>a b\<close>; the empty request
  against the key stored for \<^verbatim>\<open>a b c\<close>; the empty request against the key stored with
  the empty scope; the request \<^verbatim>\<open>a\<close> against a key stored for a and b separated by a
  tab; the request for a and b separated by a tab against the key stored for \<^verbatim>\<open>a b\<close>.
\<close>

theorem findExistingCacheKey_scope_splitting_counterexample:
  "findExistingCacheKey (keyOf keyPrefix ''app'' ''api'' ''a  b'')
     [''@@auth0spajs@@::app::api::a b''] = Inr None \<and>
   find (specSelectable (keyOf keyPrefix ''app'' ''api'' ''a  b''))
     [''@@auth0spajs@@::app::api::a b''] = Some ''@@auth0spajs@@::app::api::a b'' \<and>
   findExistingCacheKey (keyOf keyPrefix ''app'' ''api'' [])
     [''@@auth0spajs@@::app::api::a b c''] = Inr None \<and>
   find (specSelectable (keyOf keyPrefix ''app'' ''api'' []))
     [''@@auth0spajs@@::app::api::a b c''] = Some ''@@auth0spajs@@::app::api::a b c'' \<and>
   findExistingCacheKey (keyOf keyPrefix ''app'' ''api'' [])
     [''@@auth0spajs@@::app::api::''] = Inr None \<and>
   find (specSelectable (keyOf keyPrefix ''app'' ''api'' []))
     [''@@auth0spajs@@::app::api::''] = Some ''@@auth0spajs@@::app::api::'' \<and>
   findExistingCacheKey (keyOf keyPrefix ''app'' ''api'' ''a'')
     [''@@auth0spajs@@::app::api::a'' @ [CHR 0x09] @ ''b''] = Inr None \<and>
   find (specSelectable (keyOf keyPrefix ''app'' ''api'' ''a''))
     [''@@auth0spajs@@::app::api::a'' @ [CHR 0x09] @ ''b''] =
     Some (''@@auth0spajs@@::app::api::a'' @ [CHR 0x09] @ ''b'') \<and>
   findExistingCacheKey (keyOf keyPrefix ''app'' ''api'' (''a'' @ [CHR 0x09] @ ''b''))
     [''@@auth0spajs@@::app::api::a b''] = Inr None \<and>
   find (specSelectable (keyOf keyPrefix ''app'' ''api'' (''a'' @ [CHR 0x09] @ ''b'')))
     [''@@auth0spajs@@::app::api::a b''] = Some ''@@auth0spajs@@::app::api::a b''"
  by code_simp

section \<open>What the backends return\<close>

lemma fromKey_empty_prefix: "prefix (fromKey []) = Some []"
  by code_simp

lemma selected_nonempty:
  assumes "findExistingCacheKey requested keys = Inr (Some k)"
  shows "k \<noteq> []"
proof
  assume "k = []"
  with findExistingCacheKey_Some[OF assms] have "prefix (fromKey []) = Some keyPrefix"
    using matchesCacheKey_True by blast
  then show False
    by (simp add: fromKey_empty_prefix keyPrefix_def)
qed

lemma LocalStorageCache_get_readJson:
  "LocalStorageCache_get key w = LocalStorageCache_readJson (fromKey key) w"
  by (auto simp: LocalStorageCache_get_def Let_def split: prod.splits sum.splits option.splits)

lemma LocalStorageCache_get_cases:
  "LocalStorageCache_get key w =
     (case findExistingCacheKey (fromKey key) (Object_keys (localStorage w)) of
        Inl e \<Rightarrow> (Inl e, w)
      | Inr None \<Rightarrow> (Inr None, w)
      | Inr (Some k) \<Rightarrow>
          (case map_of (localStorage w) k of
             None \<Rightarrow> (Inr None, w)
           | Some (Malformed s) \<Rightarrow> if s = [] then (Inr None, w) else (Inl SyntaxError, w)
           | Some (Json Falsy) \<Rightarrow> (Inr None, w)
           | Some (Json (Object e)) \<Rightarrow>
               (Inr (Some (length (heap w))), w\<lparr>heap := heap w @ [e]\<rparr>)))"
proof (cases "findExistingCacheKey (fromKey key) (Object_keys (localStorage w))")
  case (Inl e)
  then show ?thesis
    by (simp add: LocalStorageCache_get_readJson LocalStorageCache_readJson_def)
next
  case (Inr sel)
  show ?thesis
  proof (cases sel)
    case None
    with Inr show ?thesis
      by (simp add: LocalStorageCache_get_readJson LocalStorageCache_readJson_def)
  next
    case (Some k)
    with Inr have "k \<noteq> []"
      using selected_nonempty by blast
    with Inr Some show ?thesis
      by (auto simp: LocalStorageCache_get_readJson LocalStorageCache_readJson_def
          emptyString_def JSON_parse_def split: option.splits storedText.splits payload.splits)
  qed
qed

lemma InMemoryCache_get_cases:
  "InMemoryCache_get key w =
     (case findExistingCacheKey (fromKey key) (Object_keys (cache w)) of
        Inl e \<Rightarrow> (Inl e, w)
      | Inr None \<Rightarrow> (Inr (map_of (cache w) ''undefined''), w)
      | Inr (Some k) \<Rightarrow> (Inr (map_of (cache w) k), w))"
  by (auto simp: InMemoryCache_get_def Let_def interpolate_def split: sum.splits option.splits)

lemma ICache_get_holds:
  assumes "findExistingCacheKey (fromKey key) (storedKeys c w) = Inr (Some k)"
    and "holds c w k e"
  shows "\<exists>r w1. ICache_get c key w = (Inr (Some r), w1) \<and> r < length (heap w1) \<and>
           heap w1 ! r = e \<and> localStorage w1 = localStorage w \<and> cache w1 = cache w \<and>
           (case c of
              LocalStorageCache \<Rightarrow> r = length (heap w) \<and> heap w1 = heap w @ [e]
            | InMemoryCache \<Rightarrow> map_of (cache w) k = Some r \<and> heap w1 = heap w)"
proof (cases c)
  case LocalStorageCache
  with assms show ?thesis
    by (simp add: ICache_get_def storedKeys_def holds_def LocalStorageCache_get_cases)
next
  case InMemoryCache
  with assms show ?thesis
    by (auto simp: ICache_get_def storedKeys_def holds_def InMemoryCache_get_cases
        split: option.splits)
qed

section \<open>What CacheManager.get returns and leaves\<close>

lemma heap_ICache_set: "heap (ICache_set c key r w) = heap w"
  by (cases c) (simp_all add: ICache_set_def LocalStorageCache_set_def InMemoryCache_set_def)

lemma CacheManager_get_unfold:
  assumes "ICache_get c (toKey cacheKey) w = (Inr (Some r), w1)"
  shows "CacheManager_get c cacheKey adjustment now w =
           (if expired (heap w1 ! r) adjustment now then
              if hasRefreshToken (heap w1 ! r) then
                (Inr (Some (WrappedCacheEntry.body
                   (heap (ICache_set c (toKey cacheKey) r
                      (w1\<lparr>heap := (heap w1)[r := remnant (heap w1 ! r)]\<rparr>)) ! r))),
                 ICache_set c (toKey cacheKey) r
                   (w1\<lparr>heap := (heap w1)[r := remnant (heap w1 ! r)]\<rparr>))
              else (Inr None, ICache_remove c (toKey cacheKey) w1)
            else (Inr (Some (WrappedCacheEntry.body (heap w1 ! r))), w1))"
  using assms
  by (simp add: CacheManager_get_def Let_def expired_def adjustmentOf_def hasRefreshToken_def
      remnant_def)

lemma CacheManager_get_result:
  assumes "findExistingCacheKey (fromKey (toKey cacheKey)) (storedKeys c w) = Inr (Some k)"
    and "holds c w k e"
  shows "fst (CacheManager_get c cacheKey adjustment now w) =
           Inr (if expired e adjustment now
                then (if hasRefreshToken e then Some (WrappedCacheEntry.body (remnant e)) else None)
                else Some (WrappedCacheEntry.body e))"
proof -
  obtain r w1 where g: "ICache_get c (toKey cacheKey) w = (Inr (Some r), w1)"
    and r: "r < length (heap w1)" and e: "heap w1 ! r = e"
    using ICache_get_holds[OF assms] by blast
  show ?thesis
    unfolding CacheManager_get_unfold[OF g] using r e by (simp add: heap_ICache_set)
qed

lemma CacheManager_get_LocalStorage_world:
  assumes "findExistingCacheKey (fromKey (toKey cacheKey)) (Object_keys (localStorage w)) =
             Inr (Some k)"
    and "map_of (localStorage w) k = Some (Json (Object e))"
  shows "snd (CacheManager_get LocalStorageCache cacheKey adjustment now w) =
           (if expired e adjustment now then
              if hasRefreshToken e then
                w\<lparr>heap := heap w @ [remnant e],
                  localStorage :=
                    AList.update (toKey cacheKey) (Json (Object (remnant e))) (localStorage w)\<rparr>
              else
                w\<lparr>heap := heap w @ [e],
                  localStorage := AList.delete (toKey cacheKey) (localStorage w)\<rparr>
            else w\<lparr>heap := heap w @ [e]\<rparr>)"
proof -
  have g: "ICache_get LocalStorageCache (toKey cacheKey) w =
             (Inr (Some (length (heap w))), w\<lparr>heap := heap w @ [e]\<rparr>)"
    using assms by (simp add: ICache_get_def LocalStorageCache_get_cases)
  show ?thesis
    unfolding CacheManager_get_unfold[OF g]
    by (simp add: ICache_set_def ICache_remove_def LocalStorageCache_set_def
        LocalStorageCache_remove_def JSON_stringify_def)
qed

lemma CacheManager_get_InMemory_world:
  assumes "findExistingCacheKey (fromKey (toKey cacheKey)) (Object_keys (cache w)) =
             Inr (Some k)"
    and "map_of (cache w) k = Some r"
  shows "snd (CacheManager_get InMemoryCache cacheKey adjustment now w) =
           (if expired (heap w ! r) adjustment now then
              if hasRefreshToken (heap w ! r) then
                w\<lparr>heap := (heap w)[r := remnant (heap w ! r)],
                  cache := AList.update (toKey cacheKey) r (cache w)\<rparr>
              else w\<lparr>cache := AList.delete (toKey cacheKey) (cache w)\<rparr>
            else w)"
proof -
  have g: "ICache_get InMemoryCache (toKey cacheKey) w = (Inr (Some r), w)"
    using assms by (simp add: ICache_get_def InMemoryCache_get_cases)
  show ?thesis
    unfolding CacheManager_get_unfold[OF g]
    by (simp add: ICache_set_def ICache_remove_def InMemoryCache_set_def InMemoryCache_remove_def)
qed

section \<open>C2: the result of CacheManager.get\<close>

text \<open>
  C2, as the code has it. Let the lookup for the requested key select a stored key under
  which the backend holds the wrapped entry \<open>e\<close>, and let \<open>a\<close> be the expiry adjustment
  (0 when none is given). A \<^verbatim>\<open>get\<close> at a second \<open>now div 1000\<close> that is at most
  \<open>expiresAt e - a\<close> returns the stored body unchanged; at a later second it returns
  exactly \<^verbatim>\<open>{refresh_token}\<close> when the stored body has a non-empty refresh token, and
  \<^verbatim>\<open>undefined\<close> otherwise. The entry is not expired at the second \<open>expiresAt e - a\<close>
  itself.
\<close>

theorem CacheManager_get_returns:
  "findExistingCacheKey (fromKey (toKey cacheKey)) (storedKeys c w) = Inr (Some k) \<and>
   holds c w k e \<longrightarrow>
     fst (CacheManager_get c cacheKey adjustment now w) =
       Inr (if expiresAt e - adjustmentOf adjustment < now div 1000
            then (if hasRefreshToken e
                  then Some (refreshTokenOnly
                               (Partial_CacheEntry.refresh_token (WrappedCacheEntry.body e)))
                  else None)
            else Some (WrappedCacheEntry.body e))"
proof
  assume h: "findExistingCacheKey (fromKey (toKey cacheKey)) (storedKeys c w) = Inr (Some k) \<and>
    holds c w k e"
  then have a: "findExistingCacheKey (fromKey (toKey cacheKey)) (storedKeys c w) = Inr (Some k)"
    and b: "holds c w k e"
    by simp_all
  from CacheManager_get_result[OF a b, of adjustment now] show "fst (CacheManager_get c cacheKey adjustment now w) =
       Inr (if expiresAt e - adjustmentOf adjustment < now div 1000
            then (if hasRefreshToken e
                  then Some (refreshTokenOnly
                               (Partial_CacheEntry.refresh_token (WrappedCacheEntry.body e)))
                  else None)
            else Some (WrappedCacheEntry.body e))"
    by (simp add: expired_def remnant_def)
qed

text \<open>
  The theorem on the durable backend after the sample entry was written: the request for
  the scope \<^verbatim>\<open>read\<close> finds the entry stored for \<^verbatim>\<open>read write\<close>; in second 1060 it
  returns the whole body, and with an adjustment of 10 seconds it returns the refresh
  token alone in second 1051.
\<close>

theorem CacheManager_get_returns_witness:
  "findExistingCacheKey (fromKey (toKey (keyOf keyPrefix ''app'' ''api'' ''read'')))
     (storedKeys LocalStorageCache (sampleWorld LocalStorageCache)) =
     Inr (Some ''@@auth0spajs@@::app::api::read write'') \<and>
   holds LocalStorageCache (sampleWorld LocalStorageCache) ''@@auth0spajs@@::app::api::read write''
     \<lparr>WrappedCacheEntry.body = asPartial sampleEntry, expiresAt = 1060\<rparr> \<and>
   fst (CacheManager_get LocalStorageCache (keyOf keyPrefix ''app'' ''api'' ''read'') None 1060999
          (sampleWorld LocalStorageCache)) = Inr (Some (asPartial sampleEntry)) \<and>
   fst (CacheManager_get LocalStorageCache (keyOf keyPrefix ''app'' ''api'' ''read'') (Some 10)
          1051000 (sampleWorld LocalStorageCache)) = Inr (Some (refreshTokenOnly (Some ''rt1'')))"
  using CacheManager_get_returns[of "keyOf keyPrefix ''app'' ''api'' ''read''" LocalStorageCache
      "sampleWorld LocalStorageCache" "''@@auth0spajs@@::app::api::read write''"
      "\<lparr>WrappedCacheEntry.body = asPartial sampleEntry, expiresAt = 1060\<rparr>" None 1060999]
    CacheManager_get_returns[of "keyOf keyPrefix ''app'' ''api'' ''read''" LocalStorageCache
      "sampleWorld LocalStorageCache" "''@@auth0spajs@@::app::api::read write''"
      "\<lparr>WrappedCacheEntry.body = asPartial sampleEntry, expiresAt = 1060\<rparr>" "Some 10" 1051000]
  by code_simp

text \<open>
  C2 as it is stated fails: a \<^verbatim>\<open>get\<close> at the second \<open>expiresAt\<close> itself, with no
  adjustment, returns the whole body although the body has a refresh token; and a body
  whose refresh token is the empty string gives \<^verbatim>\<open>undefined\<close> after expiry.
\<close>

theorem CacheManager_get_at_expiry_counterexample:
  "holds InMemoryCache (sampleWorld InMemoryCache) ''@@auth0spajs@@::app::api::read write''
     \<lparr>WrappedCacheEntry.body = asPartial sampleEntry, expiresAt = 1060\<rparr> \<and>
   (1060000 :: int) div 1000 = 1060 \<and>
   fst (CacheManager_get InMemoryCache (keyOf keyPrefix ''app'' ''api'' ''read write'') (Some 0)
          1060000 (sampleWorld InMemoryCache)) = Inr (Some (asPartial sampleEntry)) \<and>
   asPartial sampleEntry \<noteq> refreshTokenOnly (Some ''rt1'') \<and>
   fst (CacheManager_get InMemoryCache (keyOf keyPrefix ''app'' ''api'' ''read write'') (Some 0)
          1061000
          (CacheManager_set InMemoryCache (sampleEntry\<lparr>CacheEntry.refresh_token := Some []\<rparr>)
             1000000 emptyWorld)) = Inr None"
  by code_simp

section \<open>C4: the store after CacheManager.get has seen an expired entry\<close>

text \<open>
  C4, as the code has it. Let the lookup for the requested key select the stored key \<open>k\<close>,
  and let the entry held there be expired. If the entry has a non-empty refresh token, the
  entry reduced to \<^verbatim>\<open>{refresh_token}\<close>, with its \<open>expiresAt\<close>, is stored under the
  requested key \<open>toKey cacheKey\<close>; if it has none, the requested key is removed. Every
  other key keeps its binding. So when the entry was found under the requested key itself
  (\<open>k = toKey cacheKey\<close>), the store holds the remnant in its place, or the key no more.
  The durable backend changes nothing else; the ephemeral backend truncates the object it
  holds, which the cache manager was handed by reference.
\<close>

theorem CacheManager_get_expired_store:
  "(findExistingCacheKey (fromKey (toKey cacheKey)) (Object_keys (localStorage w)) =
      Inr (Some k) \<and>
    map_of (localStorage w) k = Some (Json (Object e)) \<and> expired e adjustment now \<longrightarrow>
      localStorage (snd (CacheManager_get LocalStorageCache cacheKey adjustment now w)) =
        (if hasRefreshToken e
         then AList.update (toKey cacheKey) (Json (Object (remnant e))) (localStorage w)
         else AList.delete (toKey cacheKey) (localStorage w))) \<and>
   (findExistingCacheKey (fromKey (toKey cacheKey)) (Object_keys (cache w)) = Inr (Some k) \<and>
    map_of (cache w) k = Some r \<and> expired (heap w ! r) adjustment now \<longrightarrow>
      snd (CacheManager_get InMemoryCache cacheKey adjustment now w) =
        (if hasRefreshToken (heap w ! r)
         then w\<lparr>heap := (heap w)[r := remnant (heap w ! r)],
                cache := AList.update (toKey cacheKey) r (cache w)\<rparr>
         else w\<lparr>cache := AList.delete (toKey cacheKey) (cache w)\<rparr>))"
proof (intro conjI impI)
  assume h: "findExistingCacheKey (fromKey (toKey cacheKey)) (Object_keys (localStorage w)) =
      Inr (Some k) \<and>
    map_of (localStorage w) k = Some (Json (Object e)) \<and> expired e adjustment now"
  then have a: "findExistingCacheKey (fromKey (toKey cacheKey)) (Object_keys (localStorage w)) =
      Inr (Some k)"
    and b: "map_of (localStorage w) k = Some (Json (Object e))"
    and c: "expired e adjustment now"
    by simp_all
  show "localStorage (snd (CacheManager_get LocalStorageCache cacheKey adjustment now w)) =
        (if hasRefreshToken e
         then AList.update (toKey cacheKey) (Json (Object (remnant e))) (localStorage w)
         else AList.delete (toKey cacheKey) (localStorage w))"
    unfolding CacheManager_get_LocalStorage_world[OF a b] using c by simp
next
  assume h: "findExistingCacheKey (fromKey (toKey cacheKey)) (Object_keys (cache w)) =
      Inr (Some k) \<and>
    map_of (cache w) k = Some r \<and> expired (heap w ! r) adjustment now"
  then have a: "findExistingCacheKey (fromKey (toKey cacheKey)) (Object_keys (cache w)) =
      Inr (Some k)"
    and b: "map_of (cache w) k = Some r"
    and c: "expired (heap w ! r) adjustment now"
    by simp_all
  show "snd (CacheManager_get InMemoryCache cacheKey adjustment now w) =
        (if hasRefreshToken (heap w ! r)
         then w\<lparr>heap := (heap w)[r := remnant (heap w ! r)],
                cache := AList.update (toKey cacheKey) r (cache w)\<rparr>
         else w\<lparr>cache := AList.delete (toKey cacheKey) (cache w)\<rparr>)"
    unfolding CacheManager_get_InMemory_world[OF a b] using c by simp
qed

text \<open>
  The theorem after the sample entry was written, at second 2000. On the durable backend
  the request for \<^verbatim>\<open>read\<close> stores the remnant under the key of \<^verbatim>\<open>read\<close>; on the
  ephemeral backend the request for \<^verbatim>\<open>read write\<close> leaves the remnant under the key of
  the entry.
\<close>

theorem CacheManager_get_expired_store_witness:
  "findExistingCacheKey (fromKey (toKey (keyOf keyPrefix ''app'' ''api'' ''read'')))
     (Object_keys (localStorage (sampleWorld LocalStorageCache))) =
     Inr (Some ''@@auth0spajs@@::app::api::read write'') \<and>
   map_of (localStorage (sampleWorld LocalStorageCache)) ''@@auth0spajs@@::app::api::read write'' =
     Some (Json (Object \<lparr>WrappedCacheEntry.body = asPartial sampleEntry, expiresAt = 1060\<rparr>)) \<and>
   expired \<lparr>WrappedCacheEntry.body = asPartial sampleEntry, expiresAt = 1060\<rparr> None 2000000 \<and>
   localStorage (snd (CacheManager_get LocalStorageCache (keyOf keyPrefix ''app'' ''api'' ''read'')
     None 2000000 (sampleWorld LocalStorageCache))) =
     [(''@@auth0spajs@@::app::api::read write'',
       Json (Object \<lparr>WrappedCacheEntry.body = asPartial sampleEntry, expiresAt = 1060\<rparr>)),
      (''@@auth0spajs@@::app::api::read'',
       Json (Object \<lparr>WrappedCacheEntry.body = refreshTokenOnly (Some ''rt1''),
                     expiresAt = 1060\<rparr>))] \<and>
   findExistingCacheKey (fromKey (toKey (keyOf keyPrefix ''app'' ''api'' ''read write'')))
     (Object_keys (cache (sampleWorld InMemoryCache))) =
     Inr (Some ''@@auth0spajs@@::app::api::read write'') \<and>
   map_of (cache (sampleWorld InMemoryCache)) ''@@auth0spajs@@::app::api::read write'' = Some 0 \<and>
   expired (heap (sampleWorld InMemoryCache) ! 0) None 2000000 \<and>
   snd (CacheManager_get InMemoryCache (keyOf keyPrefix ''app'' ''api'' ''read write'') None 2000000
     (sampleWorld InMemoryCache)) =
     \<lparr>heap = [\<lparr>WrappedCacheEntry.body = refreshTokenOnly (Some ''rt1''), expiresAt = 1060\<rparr>],
      localStorage = [],
      cache = [(''@@auth0spajs@@::app::api::read write'', 0)]\<rparr>"
  using CacheManager_get_expired_store[of "keyOf keyPrefix ''app'' ''api'' ''read''"
      "sampleWorld LocalStorageCache" "''@@auth0spajs@@::app::api::read write''"
      "\<lparr>WrappedCacheEntry.body = asPartial sampleEntry, expiresAt = 1060\<rparr>" None 2000000 0]
    CacheManager_get_expired_store[of "keyOf keyPrefix ''app'' ''api'' ''read write''"
      "sampleWorld InMemoryCache" "''@@auth0spajs@@::app::api::read write''"
      "\<lparr>WrappedCacheEntry.body = asPartial sampleEntry, expiresAt = 1060\<rparr>" None 2000000 0]
  by code_simp

text \<open>
  C4 as it is stated fails for an entry found under another key than the requested one.
  On the durable backend the entry stored for \<^verbatim>\<open>read write\<close> and requested for
  \<^verbatim>\<open>read\<close> stays whole under its key, and the remnant is a second record under the
  requested key. Without a refresh token (here on the ephemeral backend) the key that holds
  the entry is not removed: the state is the one before the call.
\<close>

theorem CacheManager_get_other_key_counterexample:
  "holds LocalStorageCache (sampleWorld LocalStorageCache) ''@@auth0spajs@@::app::api::read write''
     \<lparr>WrappedCacheEntry.body = asPartial sampleEntry, expiresAt = 1060\<rparr> \<and>
   CacheManager_get LocalStorageCache (keyOf keyPrefix ''app'' ''api'' ''read'') None 2000000
     (sampleWorld LocalStorageCache) =
     (Inr (Some (refreshTokenOnly (Some ''rt1''))),
      \<lparr>heap = [\<lparr>WrappedCacheEntry.body = asPartial sampleEntry, expiresAt = 1060\<rparr>,
               \<lparr>WrappedCacheEntry.body = refreshTokenOnly (Some ''rt1''), expiresAt = 1060\<rparr>],
       localStorage =
         [(''@@auth0spajs@@::app::api::read write'',
           Json (Object \<lparr>WrappedCacheEntry.body = asPartial sampleEntry, expiresAt = 1060\<rparr>)),
          (''@@auth0spajs@@::app::api::read'',
           Json (Object \<lparr>WrappedCacheEntry.body = refreshTokenOnly (Some ''rt1''),
                         expiresAt = 1060\<rparr>))],
       cache = []\<rparr>) \<and>
   CacheManager_get InMemoryCache (keyOf keyPrefix ''app'' ''api'' ''read'') None 2000000
     (CacheManager_set InMemoryCache (sampleEntry\<lparr>CacheEntry.refresh_token := None\<rparr>) 1000000
        emptyWorld) =
     (Inr None,
      \<lparr>heap = [\<lparr>WrappedCacheEntry.body =
                  asPartial (sampleEntry\<lparr>CacheEntry.refresh_token := None\<rparr>),
                expiresAt = 1060\<rparr>],
       localStorage = [],
       cache = [(''@@auth0spajs@@::app::api::read write'', 0)]\<rparr>)"
  by code_simp

section \<open>C8: a stored value that is no JSON\<close>

text \<open>
  C8, as the code has it. If the durable backend holds, under the key selected by the
  lookup, a non-empty text that \<^verbatim>\<open>JSON.parse\<close> rejects, then \<^verbatim>\<open>LocalStorageCache.get\<close>
  fails with the SyntaxError, \<^verbatim>\<open>CacheManager.get\<close> fails with it, and the state is the
  one before the call: the record is neither repaired nor deleted.
\<close>

theorem LocalStorageCache_get_malformed:
  "(findExistingCacheKey (fromKey key) (Object_keys (localStorage w)) = Inr (Some k) \<and>
    map_of (localStorage w) k = Some (Malformed s) \<and> s \<noteq> [] \<longrightarrow>
      LocalStorageCache_get key w = (Inl SyntaxError, w)) \<and>
   (findExistingCacheKey (fromKey (toKey cacheKey)) (Object_keys (localStorage w)) =
      Inr (Some k) \<and>
    map_of (localStorage w) k = Some (Malformed s) \<and> s \<noteq> [] \<longrightarrow>
      CacheManager_get LocalStorageCache cacheKey adjustment now w = (Inl SyntaxError, w))"
  by (simp add: LocalStorageCache_get_cases CacheManager_get_def ICache_get_def)

text \<open>The theorem at the stored text \<^verbatim>\<open>{oops\<close>.\<close>

theorem LocalStorageCache_get_malformed_witness:
  "findExistingCacheKey (fromKey (toKey (keyOf keyPrefix ''app'' ''api'' ''read'')))
     (Object_keys [(''@@auth0spajs@@::app::api::read'', Malformed ''{oops'' :: string storedText)]) =
     Inr (Some ''@@auth0spajs@@::app::api::read'') \<and>
   map_of [(''@@auth0spajs@@::app::api::read'', Malformed ''{oops'' :: string storedText)]
     ''@@auth0spajs@@::app::api::read'' = Some (Malformed ''{oops'') \<and>
   ''{oops'' \<noteq> [] \<and>
   toKey (keyOf keyPrefix ''app'' ''api'' ''read'') = ''@@auth0spajs@@::app::api::read'' \<and>
   LocalStorageCache_get ''@@auth0spajs@@::app::api::read''
     (emptyWorld\<lparr>localStorage := [(''@@auth0spajs@@::app::api::read'', Malformed ''{oops'')]\<rparr>
        :: string world) =
     (Inl SyntaxError,
      emptyWorld\<lparr>localStorage := [(''@@auth0spajs@@::app::api::read'', Malformed ''{oops'')]\<rparr>) \<and>
   CacheManager_get LocalStorageCache (keyOf keyPrefix ''app'' ''api'' ''read'') None 2000000
     (emptyWorld\<lparr>localStorage := [(''@@auth0spajs@@::app::api::read'', Malformed ''{oops'')]\<rparr>
        :: string world) =
     (Inl SyntaxError,
      emptyWorld\<lparr>localStorage := [(''@@auth0spajs@@::app::api::read'', Malformed ''{oops'')]\<rparr>)"
  using LocalStorageCache_get_malformed[of "''@@auth0spajs@@::app::api::read''"
      "emptyWorld\<lparr>localStorage := [(''@@auth0spajs@@::app::api::read'', Malformed ''{oops'')]\<rparr>
        :: string world"
      "''@@auth0spajs@@::app::api::read''" "''{oops''" "keyOf keyPrefix ''app'' ''api'' ''read''"
      None 2000000]
  by code_simp

text \<open>
  C8 as it is stated fails for the empty string: \<^verbatim>\<open>JSON.parse\<close> rejects it, but
  \<^verbatim>\<open>readJson\<close> returns before parsing it (\<^verbatim>\<open>if (!json) return\<close>), so the read gives
  \<^verbatim>\<open>null\<close> and does not fail.
\<close>

theorem LocalStorageCache_get_empty_text_counterexample:
  "JSON_parse (Malformed [] :: string storedText) = Inl SyntaxError \<and>
   LocalStorageCache_get ''@@auth0spajs@@::app::api::read''
     (emptyWorld\<lparr>localStorage := [(''@@auth0spajs@@::app::api::read'', Malformed [])]\<rparr>
        :: string world) =
     (Inr None, emptyWorld\<lparr>localStorage := [(''@@auth0spajs@@::app::api::read'', Malformed [])]\<rparr>) \<and>
   CacheManager_get LocalStorageCache (keyOf keyPrefix ''app'' ''api'' ''read'') None 2000000
     (emptyWorld\<lparr>localStorage := [(''@@auth0spajs@@::app::api::read'', Malformed [])]\<rparr>
        :: string world) =
     (Inr None, emptyWorld\<lparr>localStorage := [(''@@auth0spajs@@::app::api::read'', Malformed [])]\<rparr>)"
  by code_simp

section \<open>C9: the two backends select alike\<close>

lemma matchesCacheKey_error: "matchesCacheKey requested k = Inl e \<Longrightarrow> e = TypeError"
  by (auto simp: matchesCacheKey_def hasAllScopes_def Let_def
      split: sum.splits option.splits if_splits)

lemma filterThrowing_char:
  assumes "\<And>x e. f x = Inl e \<Longrightarrow> e = err"
  shows "filterThrowing f xs =
           (if \<exists>x \<in> set xs. f x = Inl err then Inl err
            else Inr (filter (\<lambda>x. f x = Inr True) xs))"
proof (induction xs)
  case Nil
  then show ?case by simp
next
  case (Cons x xs)
  show ?case
  proof (cases "f x")
    case (Inl e)
    with assms have "f x = Inl err"
      by blast
    then show ?thesis by simp
  next
    case (Inr b)
    then show ?thesis
      using Cons by (cases b) auto
  qed
qed

lemma findExistingCacheKey_char:
  "findExistingCacheKey requested keys =
     (if \<exists>k \<in> set keys. matchesCacheKey requested k = Inl TypeError then Inl TypeError
      else Inr (find (\<lambda>k. matchesCacheKey requested k = Inr True) keys))"
  using filterThrowing_char[of "matchesCacheKey requested" TypeError keys] matchesCacheKey_error
  by (simp add: findExistingCacheKey_def element_0_filter)

lemma find_same_set:
  assumes "set xs = set ys"
  shows "(find P xs = None \<longleftrightarrow> find P ys = None)"
  using assms by (auto simp: find_None_iff)

lemma find_Some_other:
  assumes "set xs = set ys" and "find P xs = Some k"
  shows "P k \<and> (\<exists>k' \<in> set ys. find P ys = Some k' \<and> P k')"
proof -
  from assms(2) have k: "P k" and "k \<in> set xs"
    by (auto simp: find_Some_iff in_set_conv_nth)
  then have "find P ys \<noteq> None"
    using assms(1) by (auto simp: find_None_iff)
  then obtain k' where "find P ys = Some k'"
    by blast
  moreover from this have "P k'" and "k' \<in> set ys"
    by (auto simp: find_Some_iff in_set_conv_nth)
  ultimately show ?thesis
    using k by blast
qed

lemma find_unique:
  assumes "set xs = set ys" and "\<forall>a \<in> set xs. \<forall>b \<in> set xs. P a \<and> P b \<longrightarrow> a = b"
  shows "find P xs = find P ys"
proof (cases "find P xs")
  case None
  then show ?thesis
    using find_same_set[OF assms(1), of P] by simp
next
  case (Some k)
  from find_Some_other[OF assms(1) Some] obtain k' where k: "P k" and k': "k' \<in> set ys"
    and f: "find P ys = Some k'" and pk': "P k'"
    by blast
  from Some have "k \<in> set xs"
    by (auto simp: find_Some_iff in_set_conv_nth)
  with k k' pk' assms have "k = k'"
    by blast
  with Some f show ?thesis by simp
qed

text \<open>
  C9, as the code has it. \<^verbatim>\<open>LocalStorageCache.get\<close> and \<^verbatim>\<open>InMemoryCache.get\<close> read
  their store at the key that the scan of \<open>findExistingCacheKey\<close> over the keys of the
  store selects. When the two stores hold the same set of keys, the two scans end alike:
  both fail, both select no key, or both select a stored key that satisfies the rule of
  matching. They select the same key when at most one stored key satisfies the rule, and
  when the two stores enumerate their keys in the same order. With no key selected the
  durable backend returns \<^verbatim>\<open>null\<close>, and the ephemeral backend returns what its map has
  under the name \<^verbatim>\<open>undefined\<close>.
\<close>

theorem variants_select_alike:
  "LocalStorageCache_get key w =
     (case durableSelection key w of
        Inl err \<Rightarrow> (Inl err, w)
      | Inr None \<Rightarrow> (Inr None, w)
      | Inr (Some k1) \<Rightarrow>
          (case map_of (localStorage w) k1 of
             None \<Rightarrow> (Inr None, w)
           | Some (Malformed s) \<Rightarrow> if s = [] then (Inr None, w) else (Inl SyntaxError, w)
           | Some (Json Falsy) \<Rightarrow> (Inr None, w)
           | Some (Json (Object x)) \<Rightarrow>
               (Inr (Some (length (heap w))), w\<lparr>heap := heap w @ [x]\<rparr>))) \<and>
   InMemoryCache_get key w =
     (case ephemeralSelection key w of
        Inl err \<Rightarrow> (Inl err, w)
      | Inr None \<Rightarrow> (Inr (map_of (cache w) ''undefined''), w)
      | Inr (Some k1) \<Rightarrow> (Inr (map_of (cache w) k1), w)) \<and>
   (set (Object_keys (localStorage w)) = set (Object_keys (cache w)) \<longrightarrow>
      (durableSelection key w = Inl e \<longleftrightarrow> ephemeralSelection key w = Inl e) \<and>
      (durableSelection key w = Inr None \<longleftrightarrow> ephemeralSelection key w = Inr None) \<and>
      (durableSelection key w = Inr (Some k) \<longrightarrow>
         matchesCacheKey (fromKey key) k = Inr True \<and>
         (\<exists>k' \<in> set (Object_keys (cache w)).
            ephemeralSelection key w = Inr (Some k') \<and>
            matchesCacheKey (fromKey key) k' = Inr True)) \<and>
      ((\<forall>k1 \<in> set (Object_keys (cache w)). \<forall>k2 \<in> set (Object_keys (cache w)).
          matchesCacheKey (fromKey key) k1 = Inr True \<and>
          matchesCacheKey (fromKey key) k2 = Inr True \<longrightarrow> k1 = k2) \<longrightarrow>
       durableSelection key w = ephemeralSelection key w) \<and>
      (Object_keys (localStorage w) = Object_keys (cache w) \<longrightarrow>
       durableSelection key w = ephemeralSelection key w))"
proof (intro conjI impI)
  show "LocalStorageCache_get key w =
     (case durableSelection key w of
        Inl err \<Rightarrow> (Inl err, w)
      | Inr None \<Rightarrow> (Inr None, w)
      | Inr (Some k1) \<Rightarrow>
          (case map_of (localStorage w) k1 of
             None \<Rightarrow> (Inr None, w)
           | Some (Malformed s) \<Rightarrow> if s = [] then (Inr None, w) else (Inl SyntaxError, w)
           | Some (Json Falsy) \<Rightarrow> (Inr None, w)
           | Some (Json (Object x)) \<Rightarrow>
               (Inr (Some (length (heap w))), w\<lparr>heap := heap w @ [x]\<rparr>)))"
    by (simp add: durableSelection_def LocalStorageCache_get_cases)
  show "InMemoryCache_get key w =
     (case ephemeralSelection key w of
        Inl err \<Rightarrow> (Inl err, w)
      | Inr None \<Rightarrow> (Inr (map_of (cache w) ''undefined''), w)
      | Inr (Some k1) \<Rightarrow> (Inr (map_of (cache w) k1), w))"
    by (simp add: ephemeralSelection_def InMemoryCache_get_cases)
next
  let ?P = "\<lambda>k. matchesCacheKey (fromKey key) k = Inr True"
  let ?d = "Object_keys (localStorage w)" and ?m = "Object_keys (cache w)"
  assume s: "set ?d = set ?m"
  have d: "durableSelection key w =
      (if \<exists>k \<in> set ?m. matchesCacheKey (fromKey key) k = Inl TypeError then Inl TypeError
       else Inr (find ?P ?d))"
    using s by (simp add: durableSelection_def findExistingCacheKey_char[of _ ?d])
  have m: "ephemeralSelection key w =
      (if \<exists>k \<in> set ?m. matchesCacheKey (fromKey key) k = Inl TypeError then Inl TypeError
       else Inr (find ?P ?m))"
    by (simp add: ephemeralSelection_def findExistingCacheKey_char[of _ ?m])
  show "durableSelection key w = Inl e \<longleftrightarrow> ephemeralSelection key w = Inl e"
    unfolding d m by simp
  show "durableSelection key w = Inr None \<longleftrightarrow> ephemeralSelection key w = Inr None"
    unfolding d m using find_same_set[OF s, of ?P] by simp
  {
    assume k: "durableSelection key w = Inr (Some k)"
    then have f: "find ?P ?d = Some k"
      and ne: "\<not> (\<exists>k \<in> set ?m. matchesCacheKey (fromKey key) k = Inl TypeError)"
      unfolding d by (simp_all split: if_splits)
    from find_Some_other[OF s f] ne
    show "matchesCacheKey (fromKey key) k = Inr True"
      and "\<exists>k' \<in> set ?m. ephemeralSelection key w = Inr (Some k') \<and>
            matchesCacheKey (fromKey key) k' = Inr True"
      unfolding m by auto
  }
  {
    assume u: "\<forall>k1 \<in> set ?m. \<forall>k2 \<in> set ?m. ?P k1 \<and> ?P k2 \<longrightarrow> k1 = k2"
    then have "find ?P ?d = find ?P ?m"
      using s by (intro find_unique) auto
    then show "durableSelection key w = ephemeralSelection key w"
      unfolding d m by simp
  }
  {
    assume "?d = ?m"
    then show "durableSelection key w = ephemeralSelection key w"
      by (simp add: durableSelection_def ephemeralSelection_def)
  }
qed

text \<open>
  The theorem in the state where the sample entry was written to both backends, for the
  request \<^verbatim>\<open>read\<close>; and in the state with the two keys in different orders, for the
  request \<^verbatim>\<open>write\<close>, which one stored key satisfies: both backends select it.
\<close>

theorem variants_select_alike_witness:
  "Object_keys (localStorage (CacheManager_set InMemoryCache sampleEntry 1000000
      (sampleWorld LocalStorageCache))) =
     Object_keys (cache (CacheManager_set InMemoryCache sampleEntry 1000000
      (sampleWorld LocalStorageCache))) \<and>
   durableSelection ''@@auth0spajs@@::app::api::read''
     (CacheManager_set InMemoryCache sampleEntry 1000000 (sampleWorld LocalStorageCache)) =
     Inr (Some ''@@auth0spajs@@::app::api::read write'') \<and>
   ephemeralSelection ''@@auth0spajs@@::app::api::read''
     (CacheManager_set InMemoryCache sampleEntry 1000000 (sampleWorld LocalStorageCache)) =
     Inr (Some ''@@auth0spajs@@::app::api::read write'') \<and>
   Object_keys (localStorage reorderedWorld) =
     [''@@auth0spajs@@::app::api::read admin'', ''@@auth0spajs@@::app::api::read write''] \<and>
   Object_keys (cache reorderedWorld) =
     [''@@auth0spajs@@::app::api::read write'', ''@@auth0spajs@@::app::api::read admin''] \<and>
   set (Object_keys (localStorage reorderedWorld)) = set (Object_keys (cache reorderedWorld)) \<and>
   filter (\<lambda>k. matchesCacheKey (fromKey ''@@auth0spajs@@::app::api::write'') k = Inr True)
     (Object_keys (cache reorderedWorld)) = [''@@auth0spajs@@::app::api::read write''] \<and>
   durableSelection ''@@auth0spajs@@::app::api::write'' reorderedWorld =
     Inr (Some ''@@auth0spajs@@::app::api::read write'') \<and>
   ephemeralSelection ''@@auth0spajs@@::app::api::write'' reorderedWorld =
     Inr (Some ''@@auth0spajs@@::app::api::read write'') \<and>
   fst (LocalStorageCache_get ''@@auth0spajs@@::app::api::write'' reorderedWorld) =
     Inr (Some 4) \<and>
   fst (InMemoryCache_get ''@@auth0spajs@@::app::api::write'' reorderedWorld) = Inr (Some 2)"
  using variants_select_alike[of "''@@auth0spajs@@::app::api::read''"
      "CacheManager_set InMemoryCache sampleEntry 1000000 (sampleWorld LocalStorageCache)"
      TypeError "''@@auth0spajs@@::app::api::read write''"]
    variants_select_alike[of "''@@auth0spajs@@::app::api::write''" reorderedWorld
      TypeError "''@@auth0spajs@@::app::api::read write''"]
  by code_simp

text \<open>
  C9 as it is stated fails: with the same set of stored keys in different orders of
  enumeration, the request \<^verbatim>\<open>read\<close>, which both stored keys satisfy, selects the key
  of \<^verbatim>\<open>read admin\<close> on the durable backend and the key of \<^verbatim>\<open>read write\<close> on the
  ephemeral one.
\<close>

theorem variants_select_order_counterexample:
  "Object_keys (localStorage reorderedWorld) =
     [''@@auth0spajs@@::app::api::read admin'', ''@@auth0spajs@@::app::api::read write''] \<and>
   Object_keys (cache reorderedWorld) =
     [''@@auth0spajs@@::app::api::read write'', ''@@auth0spajs@@::app::api::read admin''] \<and>
   set (Object_keys (localStorage reorderedWorld)) = set (Object_keys (cache reorderedWorld)) \<and>
   durableSelection ''@@auth0spajs@@::app::api::read'' reorderedWorld =
     Inr (Some ''@@auth0spajs@@::app::api::read admin'') \<and>
   ephemeralSelection ''@@auth0spajs@@::app::api::read'' reorderedWorld =
     Inr (Some ''@@auth0spajs@@::app::api::read write'') \<and>
   durableSelection ''@@auth0spajs@@::app::api::read'' reorderedWorld \<noteq>
     ephemeralSelection ''@@auth0spajs@@::app::api::read'' reorderedWorld"
  by code_simp

section \<open>C10: a key with the empty scope\<close>

lemma fromKey_undefined_scope: "CacheKey.scope (fromKey ''undefined'') = None"
  by code_simp

lemma empty_scope_not_matched:
  "CacheKey.scope (fromKey k) = Some [] \<Longrightarrow> matchesCacheKey requested k = Inr False"
  by (rule matchesCacheKey_falsy) (simp add: truthy_def)

lemma empty_scope_not_selected:
  assumes "CacheKey.scope (fromKey k) = Some []"
  shows "findExistingCacheKey requested keys \<noteq> Inr (Some k)"
proof
  assume "findExistingCacheKey requested keys = Inr (Some k)"
  then have "matchesCacheKey requested k = Inr True"
    using findExistingCacheKey_Some by blast
  with empty_scope_not_matched[OF assms, of requested] show False
    by simp
qed

lemma findExistingCacheKey_delete:
  assumes "CacheKey.scope (fromKey k) = Some []"
  shows "findExistingCacheKey requested (Object_keys (AList.delete k store)) =
           findExistingCacheKey requested (Object_keys store)"
  using findExistingCacheKey_removeAll[OF empty_scope_not_matched[OF assms]]
  by (simp add: Object_keys_def delete_keys)

lemma LocalStorageCache_get_delete:
  assumes "CacheKey.scope (fromKey k) = Some []"
  shows "LocalStorageCache_get key (LocalStorageCache_remove k w) =
           (case LocalStorageCache_get key w of
              (r, w1) \<Rightarrow> (r, LocalStorageCache_remove k w1))"
proof (cases "findExistingCacheKey (fromKey key) (Object_keys (localStorage w))")
  case (Inl e)
  then show ?thesis
    by (simp add: LocalStorageCache_get_cases LocalStorageCache_remove_def
        findExistingCacheKey_delete[OF assms])
next
  case (Inr sel)
  show ?thesis
  proof (cases sel)
    case None
    with Inr show ?thesis
      by (simp add: LocalStorageCache_get_cases LocalStorageCache_remove_def
          findExistingCacheKey_delete[OF assms])
  next
    case (Some k')
    with Inr have "k' \<noteq> k"
      using empty_scope_not_selected[OF assms] by metis
    with Inr Some show ?thesis
      by (simp add: LocalStorageCache_get_cases LocalStorageCache_remove_def
          findExistingCacheKey_delete[OF assms]
          split: option.splits storedText.splits payload.splits)
  qed
qed

lemma InMemoryCache_get_delete:
  assumes "CacheKey.scope (fromKey k) = Some []"
  shows "InMemoryCache_get key (InMemoryCache_remove k w) =
           (case InMemoryCache_get key w of
              (r, w1) \<Rightarrow> (r, InMemoryCache_remove k w1))"
proof (cases "findExistingCacheKey (fromKey key) (Object_keys (cache w))")
  case (Inl e)
  then show ?thesis
    by (simp add: InMemoryCache_get_cases InMemoryCache_remove_def
        findExistingCacheKey_delete[OF assms])
next
  case (Inr sel)
  show ?thesis
  proof (cases sel)
    case None
    have "k \<noteq> ''undefined''"
      using assms fromKey_undefined_scope by auto
    with Inr None show ?thesis
      by (simp add: InMemoryCache_get_cases InMemoryCache_remove_def
          findExistingCacheKey_delete[OF assms])
  next
    case (Some k')
    with Inr have "k' \<noteq> k"
      using empty_scope_not_selected[OF assms] by metis
    with Inr Some show ?thesis
      by (simp add: InMemoryCache_get_cases InMemoryCache_remove_def
          findExistingCacheKey_delete[OF assms])
  qed
qed

lemma ICache_get_remove:
  assumes "CacheKey.scope (fromKey k) = Some []"
  shows "ICache_get c key (ICache_remove c k w) =
           (case ICache_get c key w of (r, w1) \<Rightarrow> (r, ICache_remove c k w1))"
  by (cases c)
    (simp_all add: ICache_get_def ICache_remove_def LocalStorageCache_get_delete[OF assms]
      InMemoryCache_get_delete[OF assms])

lemma heap_ICache_remove: "heap (ICache_remove c k w) = heap w"
  by (cases c) (simp_all add: ICache_remove_def LocalStorageCache_remove_def
      InMemoryCache_remove_def)

lemma CacheManager_get_fst:
  assumes "ICache_get c (toKey cacheKey) w = (r, w1)"
    and "ICache_get c (toKey cacheKey) w' = (r, w1')"
    and "heap w1' = heap w1"
  shows "fst (CacheManager_get c cacheKey adjustment now w') =
           fst (CacheManager_get c cacheKey adjustment now w)"
  using assms
  by (auto simp: CacheManager_get_def Let_def heap_ICache_set split: sum.splits option.splits)

text \<open>
  C10. A stored key whose scope component is the empty string is never the key that
  \<open>findExistingCacheKey\<close> selects, whatever is requested; and the result of
  \<^verbatim>\<open>CacheManager.get\<close>, on either backend, is the same with this key in the store and
  with the key removed: what is stored under it is never what a \<^verbatim>\<open>get\<close> returns.
\<close>

theorem empty_scope_key_never_selected:
  "CacheKey.scope (fromKey k) = Some [] \<longrightarrow>
     findExistingCacheKey requested keys \<noteq> Inr (Some k) \<and>
     fst (CacheManager_get c cacheKey adjustment now (ICache_remove c k w)) =
       fst (CacheManager_get c cacheKey adjustment now w)"
proof (intro impI conjI)
  assume h: "CacheKey.scope (fromKey k) = Some []"
  show "findExistingCacheKey requested keys \<noteq> Inr (Some k)"
    by (rule empty_scope_not_selected[OF h])
  obtain r w1 where g: "ICache_get c (toKey cacheKey) w = (r, w1)"
    by (cases "ICache_get c (toKey cacheKey) w")
  then have g': "ICache_get c (toKey cacheKey) (ICache_remove c k w) = (r, ICache_remove c k w1)"
    by (simp add: ICache_get_remove[OF h])
  show "fst (CacheManager_get c cacheKey adjustment now (ICache_remove c k w)) =
       fst (CacheManager_get c cacheKey adjustment now w)"
    by (rule CacheManager_get_fst[OF g g']) (simp add: heap_ICache_remove)
qed

text \<open>
  The theorem after the sample entry was written with the empty scope: the request for
  the empty scope, whose key is the very key of the entry, finds nothing.
\<close>

theorem empty_scope_key_never_selected_witness:
  "CacheKey.scope (fromKey ''@@auth0spajs@@::app::api::'') = Some [] \<and>
   toKey (keyOf keyPrefix ''app'' ''api'' []) = ''@@auth0spajs@@::app::api::'' \<and>
   findExistingCacheKey (keyOf keyPrefix ''app'' ''api'' [])
     (storedKeys LocalStorageCache
        (CacheManager_set LocalStorageCache (sampleEntry\<lparr>CacheEntry.scope := []\<rparr>) 1000000
           emptyWorld)) = Inr None \<and>
   holds LocalStorageCache
     (CacheManager_set LocalStorageCache (sampleEntry\<lparr>CacheEntry.scope := []\<rparr>) 1000000
        emptyWorld)
     ''@@auth0spajs@@::app::api::''
     \<lparr>WrappedCacheEntry.body = asPartial (sampleEntry\<lparr>CacheEntry.scope := []\<rparr>),
      expiresAt = 1060\<rparr> \<and>
   fst (CacheManager_get LocalStorageCache (keyOf keyPrefix ''app'' ''api'' []) None 1000000
     (CacheManager_set LocalStorageCache (sampleEntry\<lparr>CacheEntry.scope := []\<rparr>) 1000000
        emptyWorld)) = Inr None \<and>
   fst (CacheManager_get LocalStorageCache (keyOf keyPrefix ''app'' ''api'' []) None 1000000
     (ICache_remove LocalStorageCache ''@@auth0spajs@@::app::api::''
        (CacheManager_set LocalStorageCache (sampleEntry\<lparr>CacheEntry.scope := []\<rparr>) 1000000
           emptyWorld))) = Inr None"
  using empty_scope_key_never_selected[of "''@@auth0spajs@@::app::api::''"
      "keyOf keyPrefix ''app'' ''api'' []"
      "storedKeys LocalStorageCache
        (CacheManager_set LocalStorageCache (sampleEntry\<lparr>CacheEntry.scope := []\<rparr>) 1000000
           emptyWorld)"
      LocalStorageCache "keyOf keyPrefix ''app'' ''api'' []" None 1000000
      "CacheManager_set LocalStorageCache (sampleEntry\<lparr>CacheEntry.scope := []\<rparr>) 1000000
         emptyWorld"]
  by code_simp

section \<open>C6: clear on the durable backend\<close>

lemma delete_nth:
  "distinct (map fst store) \<Longrightarrow> i < length store \<Longrightarrow>
   AList.delete (fst (store ! i)) store = take i store @ drop (Suc i) store"
proof (induction store arbitrary: i)
  case Nil
  then show ?case by simp
next
  case (Cons p store)
  show ?case
  proof (cases i)
    case 0
    with Cons.prems show ?thesis
      by (cases p) (simp add: image_iff)
  next
    case (Suc j)
    with Cons.prems have "fst (store ! j) \<noteq> fst p"
      by (metis Suc_less_eq distinct.simps(2) length_Cons length_map list.simps(9) nth_map
          nth_mem)
    with Cons Suc show ?thesis
      by (cases p) auto
  qed
qed

lemma clearLoop_filter:
  "distinct (map fst store) \<Longrightarrow> n \<le> length store \<Longrightarrow>
   clearLoop n store =
     (Inr (), filter (\<lambda>item. \<not> namespaced item) (take n store) @ drop n store)"
proof (induction n arbitrary: store)
  case 0
  then show ?case by simp
next
  case (Suc i)
  then have i: "i < length store"
    by simp
  then have el: "element (Object_keys store) i = Some (fst (store ! i))"
    by (simp add: element_def Object_keys_def)
  have tk: "take (Suc i) store = take i store @ [store ! i]"
    using i by (rule take_Suc_conv_app_nth)
  show ?case
  proof (cases "startsWith (fst (store ! i)) keyPrefix")
    case True
    let ?s = "AList.delete (fst (store ! i)) store"
    have s: "?s = take i store @ drop (Suc i) store"
      using Suc.prems(1) i by (rule delete_nth)
    have d: "distinct (map fst ?s)"
      using Suc.prems(1) by (rule distinct_delete)
    have l: "i \<le> length ?s"
      using i by (simp add: s)
    have "clearLoop i ?s =
            (Inr (), filter (\<lambda>item. \<not> namespaced item) (take i ?s) @ drop i ?s)"
      using d l by (rule Suc.IH)
    moreover have "take i ?s = take i store" and "drop i ?s = drop (Suc i) store"
      using i by (simp_all add: s)
    ultimately show ?thesis
      using True el by (simp add: tk namespaced_def)
  next
    case False
    have "clearLoop i store =
            (Inr (), filter (\<lambda>item. \<not> namespaced item) (take i store) @ drop i store)"
      using Suc.prems(1) i by (intro Suc.IH) simp_all
    moreover have "drop i store = store ! i # drop (Suc i) store"
      using i by (simp add: Cons_nth_drop_Suc)
    ultimately show ?thesis
      using False el by (simp add: tk namespaced_def)
  qed
qed

lemma map_of_filter_keys:
  "map_of (filter (\<lambda>item. P (fst item)) store) k = (if P k then map_of store k else None)"
  by (induction store) auto

text \<open>
  C6. On a store with distinct keys, \<^verbatim>\<open>LocalStorageCache.clear\<close> ends without an error and
  leaves exactly the items whose key does not start with the namespace prefix, in their
  order and with their values: a key that starts with the prefix is gone, and every other
  key has the value it had.
\<close>

theorem LocalStorageCache_clear_removes_namespace:
  "distinct (Object_keys (localStorage w)) \<longrightarrow>
     LocalStorageCache_clear w =
       (Inr (), w\<lparr>localStorage := filter (\<lambda>item. \<not> namespaced item) (localStorage w)\<rparr>) \<and>
     map_of (localStorage (snd (LocalStorageCache_clear w))) k =
       (if startsWith k keyPrefix then None else map_of (localStorage w) k)"
proof (intro impI)
  assume "distinct (Object_keys (localStorage w))"
  then have "clearLoop (length (localStorage w)) (localStorage w) =
           (Inr (), filter (\<lambda>item. \<not> namespaced item) (localStorage w))"
    by (simp add: clearLoop_filter Object_keys_def)
  then have c: "LocalStorageCache_clear w =
       (Inr (), w\<lparr>localStorage := filter (\<lambda>item. \<not> namespaced item) (localStorage w)\<rparr>)"
    by (simp add: LocalStorageCache_clear_def)
  have "map_of (filter (\<lambda>item. \<not> namespaced item) (localStorage w)) k =
          (if startsWith k keyPrefix then None else map_of (localStorage w) k)"
    using map_of_filter_keys[of "\<lambda>k. \<not> startsWith k keyPrefix" "localStorage w" k]
    by (simp add: namespaced_def)
  with c show "LocalStorageCache_clear w =
       (Inr (), w\<lparr>localStorage := filter (\<lambda>item. \<not> namespaced item) (localStorage w)\<rparr>) \<and>
     map_of (localStorage (snd (LocalStorageCache_clear w))) k =
       (if startsWith k keyPrefix then None else map_of (localStorage w) k)"
    by simp
qed

text \<open>
  The theorem on a store of four keys, two of which start with the prefix (one of them is
  the bare prefix).
\<close>

theorem LocalStorageCache_clear_removes_namespace_witness:
  "distinct (Object_keys
     [(''theme'', Malformed ''dark''), (''@@auth0spajs@@::app::api::read'', Json Falsy),
      (''@@auth0spajs@@'', Malformed []), (''other::app::api::read'', Json Falsy :: string storedText)]) \<and>
   LocalStorageCache_clear
     (emptyWorld\<lparr>localStorage :=
        [(''theme'', Malformed ''dark''), (''@@auth0spajs@@::app::api::read'', Json Falsy),
         (''@@auth0spajs@@'', Malformed []), (''other::app::api::read'', Json Falsy)]\<rparr>
       :: string world) =
     (Inr (),
      emptyWorld\<lparr>localStorage :=
        [(''theme'', Malformed ''dark''), (''other::app::api::read'', Json Falsy)]\<rparr>) \<and>
   map_of
     (localStorage (snd (LocalStorageCache_clear
        (emptyWorld\<lparr>localStorage :=
           [(''theme'', Malformed ''dark''), (''@@auth0spajs@@::app::api::read'', Json Falsy),
            (''@@auth0spajs@@'', Malformed []), (''other::app::api::read'', Json Falsy)]\<rparr>
          :: string world)))) ''theme'' = Some (Malformed ''dark'')"
  using LocalStorageCache_clear_removes_namespace[of
      "emptyWorld\<lparr>localStorage :=
        [(''theme'', Malformed ''dark''), (''@@auth0spajs@@::app::api::read'', Json Falsy),
         (''@@auth0spajs@@'', Malformed []), (''other::app::api::read'', Json Falsy)]\<rparr>
       :: string world" "''theme''"]
  by code_simp

section \<open>C7: the request that oauthToken builds\<close>

text \<open>
  C7. For every configuration, \<^verbatim>\<open>oauthToken\<close> hands to \<^verbatim>\<open>getJSON\<close> a request with the
  method POST, the target \<open>baseUrl @ ''/'' @ tokenPath\<close> (the default path when none is
  given), the body that is the URL-form encoding of the grant parameters when
  \<open>useFormData\<close> is set and their JSON encoding otherwise, the matching Content-Type, and
  the header Auth0-Client, with the base64 of the JSON of the client metadata (the given
  ones, or the default), exactly when \<open>disableAuth0Client\<close> is not set; there is no other
  header. The result is a function of the configuration and of the imported helpers.
\<close>

theorem oauthToken_request:
  "requestMethod (request (oauthToken env opts wrk)) = ''POST'' \<and>
   url (oauthToken env opts wrk) =
     baseUrl opts @ ''/'' @
       (case tokenPath opts of None \<Rightarrow> DEFAULT_TOKEN_PATH env | Some p \<Rightarrow> p) \<and>
   fetchOptions.body (request (oauthToken env opts wrk)) =
     (if useFormData opts = Some True then createQueryParams env (options opts)
      else stringifyOptions env (options opts)) \<and>
   map_of (headers (request (oauthToken env opts wrk))) ''Content-Type'' =
     Some (if useFormData opts = Some True then ''application/x-www-form-urlencoded''
           else ''application/json'') \<and>
   map_of (headers (request (oauthToken env opts wrk))) ''Auth0-Client'' =
     (if disableAuth0Client opts = Some True then None
      else Some (btoa env (stringifyClient env
             (case auth0Client opts of None \<Rightarrow> DEFAULT_AUTH0_CLIENT env | Some c \<Rightarrow> c)))) \<and>
   Object_keys (headers (request (oauthToken env opts wrk))) =
     (if disableAuth0Client opts = Some True then [''Content-Type'']
      else [''Content-Type'', ''Auth0-Client''])"
  by (simp add: oauthToken_def Let_def isSet_def Object_keys_def)

section \<open>C3: what CacheManager.set stores\<close>

lemma expiresAt_remnant: "expiresAt (remnant e) = expiresAt e"
  by (simp add: remnant_def)

lemma CacheManager_set_world:
  "CacheManager_set c entry now w =
     (let key = toKey (keyOf keyPrefix (CacheEntry.client_id entry) (CacheEntry.audience entry)
                  (CacheEntry.scope entry));
          wrapped =
            \<lparr>WrappedCacheEntry.body = asPartial entry,
             expiresAt = min (now div 1000 + CacheEntry.expires_in entry)
                           (exp (claims (CacheEntry.decodedToken entry)))\<rparr>
      in case c of
           LocalStorageCache \<Rightarrow>
             w\<lparr>heap := heap w @ [wrapped],
               localStorage := AList.update key (Json (Object wrapped)) (localStorage w)\<rparr>
         | InMemoryCache \<Rightarrow>
             w\<lparr>heap := heap w @ [wrapped],
               cache := AList.update key (length (heap w)) (cache w)\<rparr>)"
  by (cases c)
    (simp_all add: CacheManager_set_def wrapCacheEntry_def Let_def ICache_set_def
      LocalStorageCache_set_def InMemoryCache_set_def JSON_stringify_def keyOf_def
      new_CacheKey_def)

lemma CacheManager_set_holds:
  "holds c (CacheManager_set c entry now w)
     (toKey (keyOf keyPrefix (CacheEntry.client_id entry) (CacheEntry.audience entry)
        (CacheEntry.scope entry)))
     \<lparr>WrappedCacheEntry.body = asPartial entry,
      expiresAt = min (now div 1000 + CacheEntry.expires_in entry)
                    (exp (claims (CacheEntry.decodedToken entry)))\<rparr>"
  by (cases c) (simp_all add: CacheManager_set_world Let_def holds_def update_conv')

lemma InMemoryCache_get_snd: "snd (InMemoryCache_get key w) = w"
  by (simp add: InMemoryCache_get_cases split: sum.splits option.splits)

lemma LocalStorage_keeps_expiresAt:
  assumes "holds LocalStorageCache
             (snd (CacheManager_get LocalStorageCache cacheKey adjustment now w)) k e'"
  shows "\<exists>k0 e0. holds LocalStorageCache w k0 e0 \<and> expiresAt e' = expiresAt e0"
proof (cases "findExistingCacheKey (fromKey (toKey cacheKey)) (Object_keys (localStorage w))")
  case (Inl err)
  then have "snd (CacheManager_get LocalStorageCache cacheKey adjustment now w) = w"
    by (simp add: CacheManager_get_def ICache_get_def LocalStorageCache_get_cases)
  with assms show ?thesis by auto
next
  case (Inr sel)
  show ?thesis
  proof (cases sel)
    case None
    with Inr have "snd (CacheManager_get LocalStorageCache cacheKey adjustment now w) = w"
      by (simp add: CacheManager_get_def ICache_get_def LocalStorageCache_get_cases)
    with assms show ?thesis by auto
  next
    case (Some k1)
    note sel = Inr[unfolded Some]
    show ?thesis
    proof (cases "\<exists>e. map_of (localStorage w) k1 = Some (Json (Object e))")
      case False
      then have "localStorage (snd (CacheManager_get LocalStorageCache cacheKey adjustment now w)) =
          localStorage w"
        using sel
        by (auto simp: CacheManager_get_def ICache_get_def LocalStorageCache_get_cases
            split: option.splits storedText.splits payload.splits)
      with assms show ?thesis by (auto simp: holds_def)
    next
      case True
      then obtain e where e: "map_of (localStorage w) k1 = Some (Json (Object e))"
        by blast
      note W = CacheManager_get_LocalStorage_world[OF sel e, of adjustment now]
      show ?thesis
      proof (cases "k = toKey cacheKey \<and> expired e adjustment now \<and> hasRefreshToken e")
        case True
        with assms W have "e' = remnant e"
          by (simp add: holds_def update_conv')
        then show ?thesis
          using e by (auto simp: holds_def expiresAt_remnant)
      next
        case False
        with assms W have "map_of (localStorage w) k = Some (Json (Object e'))"
          by (auto simp: holds_def update_conv' delete_conv' split: if_splits)
        then show ?thesis
          by (auto simp: holds_def)
      qed
    qed
  qed
qed

lemma InMemory_keeps_expiresAt:
  assumes "holds InMemoryCache
             (snd (CacheManager_get InMemoryCache cacheKey adjustment now w)) k e'"
  shows "\<exists>k0 e0. holds InMemoryCache w k0 e0 \<and> expiresAt e' = expiresAt e0"
proof -
  define x where "x = fst (ICache_get InMemoryCache (toKey cacheKey) w)"
  have g: "ICache_get InMemoryCache (toKey cacheKey) w = (x, w)"
    using InMemoryCache_get_snd[of "toKey cacheKey" w]
    by (simp add: x_def ICache_get_def prod_eq_iff)
  show ?thesis
  proof (cases "\<exists>r. x = Inr (Some r)")
    case False
    then have "snd (CacheManager_get InMemoryCache cacheKey adjustment now w) = w"
      using g by (auto simp: CacheManager_get_def Let_def split: sum.splits option.splits)
    with assms show ?thesis by auto
  next
    case True
    then obtain r where x: "x = Inr (Some r)"
      by blast
    have "\<exists>k1. map_of (cache w) k1 = Some r"
      using g x
      by (auto simp: ICache_get_def InMemoryCache_get_cases split: sum.splits option.splits)
    then obtain k1 where k1: "map_of (cache w) k1 = Some r"
      by blast
    note U = CacheManager_get_unfold[OF g[unfolded x], of adjustment now]
    show ?thesis
    proof (cases "expired (heap w ! r) adjustment now \<and> hasRefreshToken (heap w ! r)")
      case False
      then have "cache (snd (CacheManager_get InMemoryCache cacheKey adjustment now w)) = cache w
          \<or> cache (snd (CacheManager_get InMemoryCache cacheKey adjustment now w)) =
              AList.delete (toKey cacheKey) (cache w)"
        and "heap (snd (CacheManager_get InMemoryCache cacheKey adjustment now w)) = heap w"
        unfolding U by (auto simp: ICache_remove_def InMemoryCache_remove_def)
      with assms have "holds InMemoryCache w k e'"
        by (auto simp: holds_def delete_conv' split: option.splits if_splits)
      then show ?thesis by auto
    next
      case True
      then have c: "cache (snd (CacheManager_get InMemoryCache cacheKey adjustment now w)) =
            AList.update (toKey cacheKey) r (cache w)"
        and h: "heap (snd (CacheManager_get InMemoryCache cacheKey adjustment now w)) =
            (heap w)[r := remnant (heap w ! r)]"
        unfolding U by (simp_all add: ICache_set_def InMemoryCache_set_def)
      from assms obtain r' where r': "map_of (AList.update (toKey cacheKey) r (cache w)) k = Some r'"
        and l: "r' < length (heap w)" and e': "e' = (heap w)[r := remnant (heap w ! r)] ! r'"
        by (auto simp: holds_def c h split: option.splits)
      show ?thesis
      proof (cases "r' = r")
        case True
        with l e' have "e' = remnant (heap w ! r)" and "holds InMemoryCache w k1 (heap w ! r)"
          using k1 by (simp_all add: holds_def)
        then show ?thesis
          using expiresAt_remnant by metis
      next
        case False
        with r' have "map_of (cache w) k = Some r'"
          by (auto simp: update_conv' split: if_splits)
        with False l e' have "holds InMemoryCache w k e'"
          by (simp add: holds_def)
        then show ?thesis by auto
      qed
    qed
  qed
qed

lemma CacheManager_get_keeps_expiresAt:
  assumes "holds c (snd (CacheManager_get c cacheKey adjustment now w)) k e'"
  shows "\<exists>k0 e0. holds c w k0 e0 \<and> expiresAt e' = expiresAt e0"
  using assms LocalStorage_keeps_expiresAt InMemory_keeps_expiresAt by (cases c) blast+

text \<open>
  C3. \<^verbatim>\<open>CacheManager.set\<close> of an entry at the time \<open>now\<close> stores the wrapped entry with
  the entry as its body and \<open>expiresAt = min (now div 1000 + expires_in) exp\<close>, under the
  key made of the default prefix and the entry's client_id, audience and scope; the value
  that the key had before is replaced, and no other key changes (the durable backend stores
  the JSON text of the wrapped entry, the ephemeral one the new object). A later
  \<^verbatim>\<open>CacheManager.get\<close> never computes \<open>expiresAt\<close> anew: every wrapped entry that the
  backend holds after the call has the \<open>expiresAt\<close> of a wrapped entry held before it.
\<close>

theorem CacheManager_set_stores:
  "(let key = toKey (keyOf keyPrefix (CacheEntry.client_id entry) (CacheEntry.audience entry)
                (CacheEntry.scope entry));
        wrapped =
          \<lparr>WrappedCacheEntry.body = asPartial entry,
           expiresAt = min (now div 1000 + CacheEntry.expires_in entry)
                         (exp (claims (CacheEntry.decodedToken entry)))\<rparr>
    in CacheManager_set c entry now w =
         (case c of
            LocalStorageCache \<Rightarrow>
              w\<lparr>heap := heap w @ [wrapped],
                localStorage := AList.update key (Json (Object wrapped)) (localStorage w)\<rparr>
          | InMemoryCache \<Rightarrow>
              w\<lparr>heap := heap w @ [wrapped],
                cache := AList.update key (length (heap w)) (cache w)\<rparr>) \<and>
       holds c (CacheManager_set c entry now w) key wrapped) \<and>
   (holds c (snd (CacheManager_get c cacheKey adjustment later w)) k e' \<longrightarrow>
      (\<exists>k0 e0. holds c w k0 e0 \<and> expiresAt e' = expiresAt e0))"
proof (intro conjI impI)
  show "let key = toKey (keyOf keyPrefix (CacheEntry.client_id entry) (CacheEntry.audience entry)
                (CacheEntry.scope entry));
        wrapped =
          \<lparr>WrappedCacheEntry.body = asPartial entry,
           expiresAt = min (now div 1000 + CacheEntry.expires_in entry)
                         (exp (claims (CacheEntry.decodedToken entry)))\<rparr>
    in CacheManager_set c entry now w =
         (case c of
            LocalStorageCache \<Rightarrow>
              w\<lparr>heap := heap w @ [wrapped],
                localStorage := AList.update key (Json (Object wrapped)) (localStorage w)\<rparr>
          | InMemoryCache \<Rightarrow>
              w\<lparr>heap := heap w @ [wrapped],
                cache := AList.update key (length (heap w)) (cache w)\<rparr>) \<and>
       holds c (CacheManager_set c entry now w) key wrapped"
    using CacheManager_set_world[of c entry now w] CacheManager_set_holds[of c entry now w]
    by (simp add: Let_def)
next
  assume "holds c (snd (CacheManager_get c cacheKey adjustment later w)) k e'"
  then show "\<exists>k0 e0. holds c w k0 e0 \<and> expiresAt e' = expiresAt e0"
    by (rule CacheManager_get_keeps_expiresAt)
qed

text \<open>
  The theorem for the sample entry: written at second 1000 it is stored with
  \<open>expiresAt = 1060\<close>, the smaller of 4600 and 1060; the remnant that a \<^verbatim>\<open>get\<close> at
  second 2000 stores has the same \<open>expiresAt\<close>.
\<close>

theorem CacheManager_set_stores_witness:
  "CacheManager_set LocalStorageCache sampleEntry 1000000 emptyWorld =
     \<lparr>heap = [\<lparr>WrappedCacheEntry.body = asPartial sampleEntry, expiresAt = 1060\<rparr>],
      localStorage =
        [(''@@auth0spajs@@::app::api::read write'',
          Json (Object \<lparr>WrappedCacheEntry.body = asPartial sampleEntry, expiresAt = 1060\<rparr>))],
      cache = []\<rparr> \<and>
   min ((1000000 :: int) div 1000 + CacheEntry.expires_in sampleEntry)
     (exp (claims (CacheEntry.decodedToken sampleEntry))) = 1060 \<and>
   holds LocalStorageCache
     (snd (CacheManager_get LocalStorageCache (keyOf keyPrefix ''app'' ''api'' ''read'') None
        2000000 (sampleWorld LocalStorageCache)))
     ''@@auth0spajs@@::app::api::read''
     \<lparr>WrappedCacheEntry.body = refreshTokenOnly (Some ''rt1''), expiresAt = 1060\<rparr> \<and>
   (\<exists>k0 e0. holds LocalStorageCache (sampleWorld LocalStorageCache) k0 e0 \<and>
      expiresAt \<lparr>WrappedCacheEntry.body = refreshTokenOnly (Some ''rt1'') :: string Partial_CacheEntry,
                 expiresAt = 1060\<rparr> = expiresAt e0)"
proof -
  have a: "CacheManager_set LocalStorageCache sampleEntry 1000000 emptyWorld =
     \<lparr>heap = [\<lparr>WrappedCacheEntry.body = asPartial sampleEntry, expiresAt = 1060\<rparr>],
      localStorage =
        [(''@@auth0spajs@@::app::api::read write'',
          Json (Object \<lparr>WrappedCacheEntry.body = asPartial sampleEntry, expiresAt = 1060\<rparr>))],
      cache = []\<rparr> \<and>
   min ((1000000 :: int) div 1000 + CacheEntry.expires_in sampleEntry)
     (exp (claims (CacheEntry.decodedToken sampleEntry))) = 1060"
    using CacheManager_set_stores[of sampleEntry 1000000 LocalStorageCache emptyWorld, THEN conjunct1]
    by code_simp
  have p: "holds LocalStorageCache
     (snd (CacheManager_get LocalStorageCache (keyOf keyPrefix ''app'' ''api'' ''read'') None
        2000000 (sampleWorld LocalStorageCache)))
     ''@@auth0spajs@@::app::api::read''
     \<lparr>WrappedCacheEntry.body = refreshTokenOnly (Some ''rt1''), expiresAt = 1060\<rparr>"
    by code_simp
  have "\<exists>k0 e0. holds LocalStorageCache (sampleWorld LocalStorageCache) k0 e0 \<and>
      expiresAt \<lparr>WrappedCacheEntry.body = refreshTokenOnly (Some ''rt1'') :: string Partial_CacheEntry,
                 expiresAt = 1060\<rparr> = expiresAt e0"
    using CacheManager_set_stores[of sampleEntry 1000000 LocalStorageCache
        "sampleWorld LocalStorageCache" "keyOf keyPrefix ''app'' ''api'' ''read''" None 2000000
        "''@@auth0spajs@@::app::api::read''"
        "\<lparr>WrappedCacheEntry.body = refreshTokenOnly (Some ''rt1''), expiresAt = 1060\<rparr>",
        THEN conjunct2, THEN mp, OF p] .
  with a p show ?thesis
    by blast
qed

end
